theory Spec2Isabelle
  imports Main
begin

section \<open>Data model (shared/types.ts)\<close>

text \<open>
  JavaScript numbers are modelled as \<open>int\<close>: every number the modelled code handles is a
  grid coordinate, a size or a counter. Fractions, NaN and infinities are outside the model.
\<close>

datatype TileColor = Green | Blue | Purple | Red | Yellow | MegaBomb

definition TILE_COLORS :: "TileColor list" where
  "TILE_COLORS = [Green, Blue, Purple, Red, Yellow]"

text \<open>\<open>TileSpecial.None\<close> and \<open>TileSpecial.MegaBomb\<close>.\<close>

datatype TileSpecial = SpecialNone | SpecialMegaBomb

datatype TilePos = TilePos (row: int) (col: int)

text \<open>
  What an element read of the colour grid can give: a colour, \<open>null\<close>, or JavaScript's
  \<open>undefined\<close> for an index at which the row array stores nothing.
\<close>

datatype Cell = Undefined | Null | Tile TileColor

text \<open>
  A row array is modelled by its element function: a read at an index that was never written
  gives \<open>undefined\<close>, a write at any index stores the value (JavaScript grows the array, or
  adds a property for a negative index). Nothing in the source reads the length of a row. The
  outer array is a list: rows are only ever added by \<open>randomFill\<close>, and an element access
  \<open>g[r][c]\<close> on a row that does not exist raises a TypeError.
\<close>

type_synonym TileGrid = "(int \<Rightarrow> Cell) list"
type_synonym SpecialGrid = "(int \<Rightarrow> TileSpecial option) list"

section \<open>Configuration (app/AppConfig.ts)\<close>

definition BoardConfig_rows :: int where "BoardConfig_rows = 9"
definition BoardConfig_cols :: int where "BoardConfig_cols = 9"

definition GameConfig_minGroupSize :: int where "GameConfig_minGroupSize = 2"
definition GameConfig_baseScorePerTile :: int where "GameConfig_baseScorePerTile = 10"
definition GameConfig_startMoves :: int where "GameConfig_startMoves = 20"
definition GameConfig_targetScore :: int where "GameConfig_targetScore = 500"
definition GameConfig_reshuffleLimit :: int where "GameConfig_reshuffleLimit = 3"
definition GameConfig_startTeleports :: int where "GameConfig_startTeleports = 5"
definition GameConfig_bombRadius :: int where "GameConfig_bombRadius = 1"
definition GameConfig_startBombs :: int where "GameConfig_startBombs = 3"
definition GameConfig_megaBombMinGroupSize :: int where "GameConfig_megaBombMinGroupSize = 5"

section \<open>GameState (app/GameState.ts)\<close>

datatype GameOverReason = Win | Lose

text \<open>\<open>gameOverReason\<close> is \<open>'win' | 'lose' | null\<close>: \<open>None\<close> is \<open>null\<close>.\<close>

record GameStateData =
  score :: int
  movesLeft :: int
  targetScore :: int
  gameOver :: bool
  gameOverReason :: "GameOverReason option"
  reshufflesLeft :: int
  bombsLeft :: int
  teleportsLeft :: int

text \<open>The constructor. The class has the one field \<open>data\<close>, which is the state itself here.\<close>

definition newGameState :: GameStateData where
  "newGameState =
     \<lparr>score = 0, movesLeft = GameConfig_startMoves, targetScore = GameConfig_targetScore,
      gameOver = False, gameOverReason = None, reshufflesLeft = GameConfig_reshuffleLimit,
      bombsLeft = GameConfig_startBombs, teleportsLeft = GameConfig_startTeleports\<rparr>"

definition canRemoveGroup :: "GameStateData \<Rightarrow> int \<Rightarrow> bool" where
  "canRemoveGroup d sz = (if gameOver d then False else GameConfig_minGroupSize \<le> sz)"

definition updateGameOver :: "GameStateData \<Rightarrow> GameStateData" where
  "updateGameOver d =
     (if gameOver d then d
      else if targetScore d \<le> score d then d\<lparr>gameOver := True, gameOverReason := Some Win\<rparr>
      else if movesLeft d \<le> 0 then d\<lparr>gameOver := True, gameOverReason := Some Lose\<rparr>
      else d)"

text \<open>Every method that mutates the state returns its result and the new state.\<close>

definition applyGroup :: "int \<Rightarrow> GameStateData \<Rightarrow> int \<times> GameStateData" where
  "applyGroup sz d =
     (if \<not> canRemoveGroup d sz then (0, d)
      else
        let gained = sz * GameConfig_baseScorePerTile;
            d1 = d\<lparr>score := score d + gained\<rparr>;
            d2 = d1\<lparr>movesLeft := movesLeft d1 - 1\<rparr>
        in (gained, updateGameOver d2))"

definition canUseReshuffle :: "GameStateData \<Rightarrow> bool" where
  "canUseReshuffle d = (if gameOver d then False else 0 < reshufflesLeft d)"

definition useReshuffle :: "GameStateData \<Rightarrow> bool \<times> GameStateData" where
  "useReshuffle d =
     (if \<not> canUseReshuffle d then (False, d)
      else (True, d\<lparr>reshufflesLeft := reshufflesLeft d - 1\<rparr>))"

definition canUseBomb :: "GameStateData \<Rightarrow> bool" where
  "canUseBomb d = (if gameOver d then False else 0 < bombsLeft d)"

definition useBomb :: "GameStateData \<Rightarrow> bool \<times> GameStateData" where
  "useBomb d =
     (if \<not> canUseBomb d then (False, d)
      else (True, d\<lparr>bombsLeft := bombsLeft d - 1\<rparr>))"

definition applyBomb :: "int \<Rightarrow> GameStateData \<Rightarrow> int \<times> GameStateData" where
  "applyBomb count d =
     (if gameOver d \<or> count \<le> 0 then (0, d)
      else
        let gained = count * GameConfig_baseScorePerTile;
            d1 = d\<lparr>score := score d + gained\<rparr>
        in (gained, updateGameOver d1))"

definition canUseTeleport :: "GameStateData \<Rightarrow> bool" where
  "canUseTeleport d = (if gameOver d then False else 0 < teleportsLeft d)"

definition useTeleport :: "GameStateData \<Rightarrow> bool \<times> GameStateData" where
  "useTeleport d =
     (if \<not> canUseTeleport d then (False, d)
      else (True, d\<lparr>teleportsLeft := teleportsLeft d - 1\<rparr>))"

text \<open>
  Sequences of calls on one GameState: a call is one of the five mutating methods with its
  argument, and \<open>runCalls\<close> performs a sequence from left to right, dropping the results.
\<close>

datatype Call = ApplyGroup int | ApplyBomb int | UseReshuffle | UseBomb | UseTeleport

fun call :: "Call \<Rightarrow> GameStateData \<Rightarrow> GameStateData" where
  "call (ApplyGroup sz) d = snd (applyGroup sz d)"
| "call (ApplyBomb count) d = snd (applyBomb count d)"
| "call UseReshuffle d = snd (useReshuffle d)"
| "call UseBomb d = snd (useBomb d)"
| "call UseTeleport d = snd (useTeleport d)"

definition runCalls :: "Call list \<Rightarrow> GameStateData \<Rightarrow> GameStateData" where
  "runCalls cs d = fold call cs d"

section \<open>BoardModel (domain/BoardModel.ts)\<close>

text \<open>
  The fields \<open>from\<close>, \<open>to\<close>, \<open>color\<close> of a GravityMovement and \<open>pos\<close>, \<open>color\<close> of a
  RefillInfo. The colour is the value read from the grid, whatever it is.
\<close>

datatype GravityMovement = GravityMovement (mvFrom: TilePos) (mvTo: TilePos) (mvColor: Cell)

datatype RefillInfo = RefillInfo (rfPos: TilePos) (rfColor: Cell)

record BoardModel =
  rows :: int
  cols :: int
  availableColors :: "TileColor list"
  grid :: TileGrid
  specialGrid :: SpecialGrid

text \<open>The constructor: an absent or empty colour list falls back to \<open>TILE_COLORS\<close>.\<close>

definition newBoardModel :: "int \<Rightarrow> int \<Rightarrow> TileColor list \<Rightarrow> BoardModel" where
  "newBoardModel r c colors =
     \<lparr>rows = r, cols = c,
      availableColors = (if colors \<noteq> [] then colors else TILE_COLORS),
      grid = [], specialGrid = []\<rparr>"

text \<open>
  \<open>g[r][c]\<close> and \<open>g[r][c] = v\<close> where the row \<open>g[r]\<close> exists. BoardModel makes every element
  access inside an \<open>inBounds\<close> guard or a loop bounded by \<open>rows\<close> and \<open>cols\<close>, so on a board
  whose two grids have their \<open>rows\<close> row arrays (\<open>allocated\<close> below: every board after
  \<open>randomFill\<close>) the row exists. The BoardModel operations are modelled on such boards.
\<close>

definition getAt :: "(int \<Rightarrow> 'a) list \<Rightarrow> int \<Rightarrow> int \<Rightarrow> 'a" where
  "getAt g r c = (g ! nat r) c"

definition setAt :: "(int \<Rightarrow> 'a) list \<Rightarrow> int \<Rightarrow> int \<Rightarrow> 'a \<Rightarrow> (int \<Rightarrow> 'a) list" where
  "setAt g r c v = g[nat r := (g ! nat r)(c := v)]"

definition allocated :: "BoardModel \<Rightarrow> bool" where
  "allocated b = (length (grid b) = nat (rows b) \<and> length (specialGrid b) = nat (rows b))"

text \<open>
  \<open>Math.floor(Math.random() * availableColors.length)\<close> is some index of \<open>availableColors\<close>.
  The random numbers are a parameter of the model: \<open>rnd r c\<close> is the number drawn for the
  cell \<open>(r, c)\<close>, reduced to an index. With no colour at all the element read is \<open>undefined\<close>.
\<close>

definition pickColor :: "BoardModel \<Rightarrow> nat \<Rightarrow> Cell" where
  "pickColor b k =
     (if availableColors b = [] then Undefined
      else Tile (availableColors b ! (k mod length (availableColors b))))"

text \<open>
  \<open>randomFill\<close> pushes \<open>cols\<close> elements on each of \<open>rows\<close> fresh row arrays: the row holds
  the pushed values at the indices from 0 to \<open>cols - 1\<close> and nothing elsewhere.
\<close>

definition randomFill :: "(int \<Rightarrow> int \<Rightarrow> nat) \<Rightarrow> BoardModel \<Rightarrow> BoardModel" where
  "randomFill rnd b =
     b\<lparr>grid := map (\<lambda>r. (\<lambda>c. if 0 \<le> c \<and> c < cols b then pickColor b (rnd r c) else Undefined))
                  [0..rows b - 1],
       specialGrid := map (\<lambda>r. (\<lambda>c. if 0 \<le> c \<and> c < cols b then Some SpecialNone else None))
                  [0..rows b - 1]\<rparr>"

definition inBounds :: "BoardModel \<Rightarrow> int \<Rightarrow> int \<Rightarrow> bool" where
  "inBounds b r c = (0 \<le> r \<and> r < rows b \<and> 0 \<le> c \<and> c < cols b)"

definition getSpecial :: "BoardModel \<Rightarrow> int \<Rightarrow> int \<Rightarrow> TileSpecial option" where
  "getSpecial b r c =
     (if \<not> inBounds b r c then Some SpecialNone else getAt (specialGrid b) r c)"

definition setSpecial :: "BoardModel \<Rightarrow> int \<Rightarrow> int \<Rightarrow> TileSpecial \<Rightarrow> BoardModel" where
  "setSpecial b r c special =
     (if \<not> inBounds b r c then b
      else b\<lparr>specialGrid := setAt (specialGrid b) r c (Some special)\<rparr>)"

definition isMegaBomb :: "BoardModel \<Rightarrow> int \<Rightarrow> int \<Rightarrow> bool" where
  "isMegaBomb b r c = (getSpecial b r c = Some SpecialMegaBomb)"

text \<open>
  The nested loops \<open>for row = 0 .. rows - 1, for col = 0 .. cols - 1\<close> visit the cells in this
  order.
\<close>

definition cellPositions :: "BoardModel \<Rightarrow> TilePos list" where
  "cellPositions b =
     concat (map (\<lambda>r. map (\<lambda>c. (TilePos r c)) [0..cols b - 1]) [0..rows b - 1])"

subsection \<open>Group search\<close>

text \<open>
  The loop of \<open>findGroup\<close>. The stack is a list with its top first (\<open>pop\<close> takes the head,
  \<open>push\<close> conses), \<open>visited\<close> is the set of the cells whose entry of the boolean matrix is
  true, \<open>grp\<close> (the source's \<open>group\<close>) grows at its end.
\<close>

function floodFill ::
  "BoardModel \<Rightarrow> TileColor \<Rightarrow> TilePos list \<Rightarrow> TilePos set \<Rightarrow> TilePos list \<Rightarrow> TilePos list"
where
  "floodFill b startColor [] visited grp = grp"
| "floodFill b startColor (p # stack) visited grp =
     (if \<not> inBounds b (row p) (col p) then floodFill b startColor stack visited grp
      else if p \<in> visited then floodFill b startColor stack visited grp
      else if getAt (grid b) (row p) (col p) \<noteq> Tile startColor
        then floodFill b startColor stack (insert p visited) grp
      else floodFill b startColor
             ((TilePos (row p) (col p + 1)) # (TilePos (row p) (col p - 1))
              # (TilePos (row p + 1) (col p)) # (TilePos (row p - 1) (col p)) # stack)
             (insert p visited) (grp @ [p]))"
  by pat_completeness auto

lemma finite_inBounds: "finite {p. inBounds b (row p) (col p)}"
proof -
  have "{p. inBounds b (row p) (col p)} \<subseteq> (\<lambda>(r, c). TilePos r c) ` ({0..rows b} \<times> {0..cols b})"
  proof
    fix p assume "p \<in> {p. inBounds b (row p) (col p)}"
    then have "(row p, col p) \<in> {0..rows b} \<times> {0..cols b}"
      by (simp add: inBounds_def)
    moreover have "p = (\<lambda>(r, c). TilePos r c) (row p, col p)" by simp
    ultimately show "p \<in> (\<lambda>(r, c). TilePos r c) ` ({0..rows b} \<times> {0..cols b})"
      by (rule rev_image_eqI)
  qed
  then show ?thesis by (rule finite_subset) simp
qed

termination floodFill
proof (relation "measures [\<lambda>(b, sc, stack, visited, grp).
                              card ({p. inBounds b (row p) (col p)} - visited),
                            \<lambda>(b, sc, stack, visited, grp). length stack]")
  fix b :: BoardModel and startColor :: TileColor and p :: TilePos and stack :: "TilePos list"
    and visited :: "TilePos set" and grp :: "TilePos list"
  assume inb: "\<not> \<not> inBounds b (row p) (col p)" and nv: "p \<notin> visited"
  have lt: "card ({q. inBounds b (row q) (col q)} - insert p visited)
          < card ({q. inBounds b (row q) (col q)} - visited)"
  proof (rule psubset_card_mono)
    show "finite ({q. inBounds b (row q) (col q)} - visited)"
      using finite_inBounds by simp
    show "{q. inBounds b (row q) (col q)} - insert p visited
            \<subset> {q. inBounds b (row q) (col q)} - visited"
      using inb nv by auto
  qed
  show "((b, startColor, stack, insert p visited, grp), b, startColor, p # stack, visited, grp)
               \<in> measures [\<lambda>(b, sc, stack, visited, grp).
                              card ({p. inBounds b (row p) (col p)} - visited),
                            \<lambda>(b, sc, stack, visited, grp). length stack]"
    using lt by simp
  show "((b, startColor,
                (TilePos (row p) (col p + 1)) # (TilePos (row p) (col p - 1))
                # (TilePos (row p + 1) (col p)) # (TilePos (row p - 1) (col p)) # stack,
                insert p visited, grp @ [p]), b, startColor, p # stack, visited, grp)
               \<in> measures [\<lambda>(b, sc, stack, visited, grp).
                              card ({p. inBounds b (row p) (col p)} - visited),
                            \<lambda>(b, sc, stack, visited, grp). length stack]"
    using lt by simp
qed simp_all

declare floodFill.simps [simp del]

text \<open>
  \<open>!startColor\<close> holds for \<open>null\<close> and \<open>undefined\<close>. The stack starts with the start cell
  alone, the matrix all false and the group empty.
\<close>

definition findGroup :: "BoardModel \<Rightarrow> int \<Rightarrow> int \<Rightarrow> TilePos list" where
  "findGroup b startRow startCol =
     (if \<not> inBounds b startRow startCol then []
      else case getAt (grid b) startRow startCol of
             Tile startColor \<Rightarrow> floodFill b startColor [(TilePos startRow startCol)] {} []
           | _ \<Rightarrow> [])"

subsection \<open>Group removal\<close>

text \<open>The body of the loop of \<open>removeGroup\<close>, and the loop. An empty group changes nothing.\<close>

definition removeCell :: "TilePos \<Rightarrow> BoardModel \<Rightarrow> BoardModel" where
  "removeCell p b =
     (if \<not> inBounds b (row p) (col p) then b
      else b\<lparr>grid := setAt (grid b) (row p) (col p) Null,
             specialGrid := setAt (specialGrid b) (row p) (col p) (Some SpecialNone)\<rparr>)"

definition removeGroup :: "TilePos list \<Rightarrow> BoardModel \<Rightarrow> BoardModel" where
  "removeGroup grp b = fold removeCell grp b"

subsection \<open>Gravity\<close>

text \<open>
  The state of the loops of \<open>applyGravity\<close>: the two grids \<open>g\<close> and \<open>s\<close>, the movements
  pushed so far and \<open>writeRow\<close>.
\<close>

record GravityState =
  gGrid :: TileGrid
  gSpecial :: SpecialGrid
  movements :: "GravityMovement list"
  writeRow :: int

text \<open>The body of the inner loop at \<open>row = r\<close> in column \<open>c\<close>.\<close>

definition gravityCell :: "int \<Rightarrow> int \<Rightarrow> GravityState \<Rightarrow> GravityState" where
  "gravityCell c r st =
     (let color = getAt (gGrid st) r c in
      if color \<noteq> Null then
        (if writeRow st \<noteq> r then
           let spec = getAt (gSpecial st) r c in
           st\<lparr>gGrid := setAt (setAt (gGrid st) (writeRow st) c color) r c Null,
              gSpecial := setAt (setAt (gSpecial st) (writeRow st) c spec) r c (Some SpecialNone),
              movements := movements st @ [GravityMovement (TilePos r c) (TilePos (writeRow st) c) color],
              writeRow := writeRow st - 1\<rparr>
         else st\<lparr>writeRow := writeRow st - 1\<rparr>)
      else st)"

text \<open>The body of the loop that empties what lies above the compacted run.\<close>

definition clearCell :: "int \<Rightarrow> int \<Rightarrow> GravityState \<Rightarrow> GravityState" where
  "clearCell c r st =
     st\<lparr>gGrid := setAt (gGrid st) r c Null,
        gSpecial := setAt (gSpecial st) r c (Some SpecialNone)\<rparr>"

text \<open>
  One column: \<open>row\<close> runs from \<open>rows - 1\<close> down to 0, then from the final \<open>writeRow\<close> down
  to 0.
\<close>

definition gravityColumn :: "int \<Rightarrow> int \<Rightarrow> GravityState \<Rightarrow> GravityState" where
  "gravityColumn nrows c st =
     (let st1 = fold (gravityCell c) (rev [0..nrows - 1]) (st\<lparr>writeRow := nrows - 1\<rparr>)
      in fold (clearCell c) (rev [0..writeRow st1]) st1)"

definition applyGravity :: "BoardModel \<Rightarrow> GravityMovement list \<times> BoardModel" where
  "applyGravity b =
     (let st = fold (gravityColumn (rows b)) [0..cols b - 1]
                 \<lparr>gGrid = grid b, gSpecial = specialGrid b, movements = [], writeRow = rows b - 1\<rparr>
      in (movements st, b\<lparr>grid := gGrid st, specialGrid := gSpecial st\<rparr>))"

subsection \<open>Refill\<close>

definition refillCell ::
  "(int \<Rightarrow> int \<Rightarrow> nat) \<Rightarrow> TilePos \<Rightarrow> RefillInfo list \<times> BoardModel \<Rightarrow> RefillInfo list \<times> BoardModel"
where
  "refillCell rnd p st =
     (let refilled = fst st; b = snd st in
      if getAt (grid b) (row p) (col p) = Null then
        let color = pickColor b (rnd (row p) (col p)) in
        (refilled @ [RefillInfo p color],
         b\<lparr>grid := setAt (grid b) (row p) (col p) color,
           specialGrid := setAt (specialGrid b) (row p) (col p) (Some SpecialNone)\<rparr>)
      else st)"

definition refillEmptyCells :: "(int \<Rightarrow> int \<Rightarrow> nat) \<Rightarrow> BoardModel \<Rightarrow> RefillInfo list \<times> BoardModel" where
  "refillEmptyCells rnd b = fold (refillCell rnd) (cellPositions b) ([], b)"

subsection \<open>Move availability\<close>

text \<open>
  The nested loops of \<open>hasAnyMoves\<close> over the cells that remain to be visited, with their
  early returns. \<open>!color\<close> holds for \<open>null\<close> and \<open>undefined\<close>.
\<close>

fun anyMoveFrom :: "BoardModel \<Rightarrow> TilePos list \<Rightarrow> bool" where
  "anyMoveFrom b [] = False"
| "anyMoveFrom b (p # ps) =
     (case getAt (grid b) (row p) (col p) of
        Tile color \<Rightarrow>
          if inBounds b (row p + 1) (col p) \<and> getAt (grid b) (row p + 1) (col p) = Tile color
            then True
          else if inBounds b (row p) (col p + 1) \<and> getAt (grid b) (row p) (col p + 1) = Tile color
            then True
          else anyMoveFrom b ps
      | _ \<Rightarrow> anyMoveFrom b ps)"

definition hasAnyMoves :: "BoardModel \<Rightarrow> int \<Rightarrow> bool" where
  "hasAnyMoves b minGroupSize =
     (if minGroupSize \<le> 1 then True else anyMoveFrom b (cellPositions b))"

subsection \<open>Swap, full clear, count\<close>

definition swapTiles :: "TilePos \<Rightarrow> TilePos \<Rightarrow> BoardModel \<Rightarrow> BoardModel" where
  "swapTiles a b' b =
     (if \<not> inBounds b (row a) (col a) \<or> \<not> inBounds b (row b') (col b') then b
      else
        let g = grid b; s = specialGrid b;
            tmp = getAt g (row a) (col a);
            g1 = setAt g (row a) (col a) (getAt g (row b') (col b'));
            g2 = setAt g1 (row b') (col b') tmp;
            tmpSpec = getAt s (row a) (col a);
            s1 = setAt s (row a) (col a) (getAt s (row b') (col b'));
            s2 = setAt s1 (row b') (col b') tmpSpec
        in b\<lparr>grid := g2, specialGrid := s2\<rparr>)"

definition clearTile :: "TilePos \<Rightarrow> TilePos list \<times> BoardModel \<Rightarrow> TilePos list \<times> BoardModel" where
  "clearTile p st =
     (let removed = fst st; b = snd st in
      if getAt (grid b) (row p) (col p) \<noteq> Null then
        (removed @ [p],
         b\<lparr>grid := setAt (grid b) (row p) (col p) Null,
           specialGrid := setAt (specialGrid b) (row p) (col p) (Some SpecialNone)\<rparr>)
      else st)"

definition clearAllTiles :: "BoardModel \<Rightarrow> TilePos list \<times> BoardModel" where
  "clearAllTiles b = fold clearTile (cellPositions b) ([], b)"

definition countNonEmptyTiles :: "BoardModel \<Rightarrow> int" where
  "countNonEmptyTiles b =
     fold (\<lambda>p count. if getAt (grid b) (row p) (col p) \<noteq> Null then count + 1 else count)
       (cellPositions b) 0"

section \<open>BombController (app/controllers/BombController.ts)\<close>

text \<open>
  A controller holds a reference to the board, or \<open>null\<close>. In the model it holds the board
  itself, and a method that changes the board returns the controller with the new board.
\<close>

record BombController =
  bcBoard :: "BoardModel option"
  bcActive :: bool
  bcRadius :: int

definition BombController_reset :: "BombController \<Rightarrow> BombController" where
  "BombController_reset ctrl = ctrl\<lparr>bcActive := False\<rparr>"

definition BombController_toggle :: "BombController \<Rightarrow> BombController" where
  "BombController_toggle ctrl = ctrl\<lparr>bcActive := \<not> bcActive ctrl\<rparr>"

text \<open>
  \<open>handleClick(row, col)\<close>: the two loops run over the square of radius \<open>R\<close> around the
  click, skip what lies outside the grid and what is \<open>null\<close>, and push the rest.
\<close>

definition BombController_handleClick ::
  "BombController \<Rightarrow> int \<Rightarrow> int \<Rightarrow> TilePos list \<times> BombController"
where
  "BombController_handleClick ctrl r0 c0 =
     (case bcBoard ctrl of
        None \<Rightarrow> ([], ctrl)
      | Some b \<Rightarrow>
          if \<not> bcActive ctrl then ([], ctrl)
          else
            let R = bcRadius ctrl in
            ([TilePos r c. r \<leftarrow> [r0 - R..r0 + R], c \<leftarrow> [c0 - R..c0 + R],
                \<not> (r < 0 \<or> rows b \<le> r \<or> c < 0 \<or> cols b \<le> c),
                \<not> (getAt (grid b) r c = Null)],
             ctrl\<lparr>bcActive := False\<rparr>))"

section \<open>TeleportController (app/controllers/TeleportController.ts)\<close>

datatype TeleportClickResult =
    Select TilePos
  | Deselect TilePos
  | Reselect TilePos TilePos
  | Swap TilePos TilePos

record TeleportController =
  tcBoardModel :: "BoardModel option"
  tcActive :: bool
  tcFirst :: "TilePos option"

definition resetSelection :: "TeleportController \<Rightarrow> TeleportController" where
  "resetSelection ctrl = ctrl\<lparr>tcFirst := None\<rparr>"

definition TeleportController_toggle :: "TeleportController \<Rightarrow> bool \<times> TeleportController" where
  "TeleportController_toggle ctrl =
     (let ctrl1 = resetSelection (ctrl\<lparr>tcActive := \<not> tcActive ctrl\<rparr>)
      in (tcActive ctrl1, ctrl1))"

definition TeleportController_reset :: "TeleportController \<Rightarrow> TeleportController" where
  "TeleportController_reset ctrl = (resetSelection ctrl)\<lparr>tcActive := False\<rparr>"

text \<open>
  \<open>handleClick(payload)\<close>, with the payload's \<open>row\<close> and \<open>col\<close> as the position \<open>pos\<close>;
  \<open>None\<close> is the result \<open>null\<close>.
\<close>

definition TeleportController_handleClick ::
  "TeleportController \<Rightarrow> TilePos \<Rightarrow> TeleportClickResult option \<times> TeleportController"
where
  "TeleportController_handleClick ctrl pos =
     (if \<not> tcActive ctrl then (None, ctrl)
      else case tcBoardModel ctrl of
        None \<Rightarrow> (None, ctrl)
      | Some b \<Rightarrow>
          (case tcFirst ctrl of
             None \<Rightarrow> (Some (Select pos), ctrl\<lparr>tcFirst := Some pos\<rparr>)
           | Some first \<Rightarrow>
               if row first = row pos \<and> col first = col pos
                 then (Some (Deselect first), ctrl\<lparr>tcFirst := None\<rparr>)
               else
                 let dr = \<bar>row first - row pos\<bar>;
                     dc = \<bar>col first - col pos\<bar>;
                     isNeighbor = (dr + dc = 1)
                 in if \<not> isNeighbor
                      then (Some (Reselect first pos), ctrl\<lparr>tcFirst := Some pos\<rparr>)
                    else (Some (Swap first pos),
                          ctrl\<lparr>tcBoardModel := Some (swapTiles first pos b),
                               tcFirst := None, tcActive := False\<rparr>)))"

section \<open>MegaBombController (app/controllers/MegaBombController.ts)\<close>

text \<open>
  MegaBombController reads and writes \<open>grid[row][col]\<close> at coordinates it was given, with no
  bounds check. Where the row array \<open>grid[row]\<close> does not exist the access raises a TypeError;
  where it exists, a read outside the stored indices gives \<open>undefined\<close> and a write stores
  the value. A method that can raise returns \<open>Inl TypeError\<close> then, with the controller as
  the exception leaves it.
\<close>

datatype JsError = TypeError

definition rowExists :: "(int \<Rightarrow> 'a) list \<Rightarrow> int \<Rightarrow> bool" where
  "rowExists g r = (0 \<le> r \<and> r < int (length g))"

datatype MegaBombCreationResult =
  MegaBombCreationResult (created: bool) (center: "TilePos option") (removedCells: "TilePos list")

datatype MegaBombExplosionResult =
  MegaBombExplosionResult (explodedCells: "TilePos list") (totalTiles: int)

record MegaBombController =
  mbBoard :: "BoardModel option"
  mbMinGroupSize :: int

definition canCreateFromSize :: "MegaBombController \<Rightarrow> int \<Rightarrow> bool" where
  "canCreateFromSize ctrl sz = (mbMinGroupSize ctrl \<le> sz)"

definition MegaBombController_isMegaBomb :: "MegaBombController \<Rightarrow> int \<Rightarrow> int \<Rightarrow> JsError + bool" where
  "MegaBombController_isMegaBomb ctrl r c =
     (case mbBoard ctrl of
        None \<Rightarrow> Inr False
      | Some b \<Rightarrow>
          if \<not> rowExists (grid b) r then Inl TypeError
          else Inr (getAt (grid b) r c = Tile MegaBomb))"

definition createFromGroup ::
  "MegaBombController \<Rightarrow> TilePos list \<Rightarrow> TilePos
     \<Rightarrow> (JsError + MegaBombCreationResult) \<times> MegaBombController"
where
  "createFromGroup ctrl grp cen =
     (case mbBoard ctrl of
        None \<Rightarrow> (Inr (MegaBombCreationResult False None []), ctrl)
      | Some b \<Rightarrow>
          if int (length grp) < mbMinGroupSize ctrl
            then (Inr (MegaBombCreationResult False None []), ctrl)
          else
            let withoutCenter = filter (\<lambda>p. \<not> (row p = row cen \<and> col p = col cen)) grp;
                b1 = removeGroup withoutCenter b
            in if \<not> rowExists (grid b1) (row cen)
                 then (Inl TypeError, ctrl\<lparr>mbBoard := Some b1\<rparr>)
               else
                 (Inr (MegaBombCreationResult True (Some cen) withoutCenter),
                  ctrl\<lparr>mbBoard :=
                         Some (b1\<lparr>grid := setAt (grid b1) (row cen) (col cen) (Tile MegaBomb)\<rparr>)\<rparr>))"

text \<open>
  \<open>explode(row, col)\<close>; \<open>None\<close> is the result \<open>null\<close>. The loose test \<open>!= null\<close> fails for
  \<open>null\<close> and for \<open>undefined\<close>.
\<close>

definition explode ::
  "MegaBombController \<Rightarrow> int \<Rightarrow> int
     \<Rightarrow> (JsError + MegaBombExplosionResult option) \<times> MegaBombController"
where
  "explode ctrl r c =
     (case mbBoard ctrl of
        None \<Rightarrow> (Inr None, ctrl)
      | Some b \<Rightarrow>
          if \<not> rowExists (grid b) r then (Inl TypeError, ctrl)
          else if getAt (grid b) r c \<noteq> Tile MegaBomb then (Inr None, ctrl)
          else
            let removed = filter (\<lambda>p. getAt (grid b) (row p) (col p) \<noteq> Null
                                      \<and> getAt (grid b) (row p) (col p) \<noteq> Undefined)
                            (cellPositions b);
                total = int (length removed)
            in if total = 0 then (Inr None, ctrl)
               else (Inr (Some (MegaBombExplosionResult removed total)),
                     ctrl\<lparr>mbBoard := Some (removeGroup removed b)\<rparr>))"

section \<open>Vocabulary of the properties\<close>

text \<open>
  Two cells are 4-adjacent when they differ by one step up, down, left or right. A cell is
  connected to \<open>a\<close> in a set \<open>S\<close> when a chain of 4-adjacent cells of \<open>S\<close> leads from \<open>a\<close>
  to it.
\<close>

definition adjacent4 :: "TilePos \<Rightarrow> TilePos \<Rightarrow> bool" where
  "adjacent4 p q = (\<bar>row p - row q\<bar> + \<bar>col p - col q\<bar> = 1)"

inductive connectedIn :: "TilePos set \<Rightarrow> TilePos \<Rightarrow> TilePos \<Rightarrow> bool" for S a where
  start: "a \<in> S \<Longrightarrow> connectedIn S a a"
| step: "connectedIn S a p \<Longrightarrow> q \<in> S \<Longrightarrow> adjacent4 p q \<Longrightarrow> connectedIn S a q"

code_pred connectedIn .

text \<open>A column of the grid from top to bottom, and the tiles in it.\<close>

definition columnCells :: "BoardModel \<Rightarrow> int \<Rightarrow> Cell list" where
  "columnCells b c = map (\<lambda>r. getAt (grid b) r c) [0..rows b - 1]"

definition survivors :: "BoardModel \<Rightarrow> int \<Rightarrow> Cell list" where
  "survivors b c = filter (\<lambda>x. x \<noteq> Null) (columnCells b c)"

text \<open>
  Replaying a movement list on a grid: each movement, in the order of the list, writes its
  colour at \<open>to\<close> and empties \<open>from\<close>.
\<close>

definition replayMove :: "GravityMovement \<Rightarrow> TileGrid \<Rightarrow> TileGrid" where
  "replayMove m g =
     setAt (setAt g (row (mvTo m)) (col (mvTo m)) (mvColor m))
       (row (mvFrom m)) (col (mvFrom m)) Null"

definition replayMoves :: "GravityMovement list \<Rightarrow> TileGrid \<Rightarrow> TileGrid" where
  "replayMoves ms g = fold replayMove ms g"

text \<open>
  Where gravity takes the tile of the cell \<open>(r, c)\<close>: to the bottom row, less one row for
  every tile below it in its column. The relocations of a board are those of its tiles that
  do not rest there already; \<open>expectedMoves\<close> lists them column by column from left to
  right, and in a column from the bottom tile up.
\<close>

definition destRow :: "BoardModel \<Rightarrow> int \<Rightarrow> int \<Rightarrow> int" where
  "destRow b r c =
     rows b - 1 - int (length (filter (\<lambda>r'. getAt (grid b) r' c \<noteq> Null) [r + 1..rows b - 1]))"

definition expectedMoves :: "BoardModel \<Rightarrow> GravityMovement list" where
  "expectedMoves b =
     [GravityMovement (TilePos r c) (TilePos (destRow b r c) c) (getAt (grid b) r c).
        c \<leftarrow> [0..cols b - 1], r \<leftarrow> rev [0..rows b - 1],
        getAt (grid b) r c \<noteq> Null \<and> destRow b r c \<noteq> r]"

text \<open>
  The boards reachable from a filled new board by the public operations of BoardModel that
  the game uses and by \<open>createFromGroup\<close> and \<open>explode\<close> of a MegaBombController on the
  board, with any arguments. The board of a controller call is the one the controller holds
  afterwards, also where the call raised.
\<close>

inductive reachableBoard :: "BoardModel \<Rightarrow> bool" where
  filled: "reachableBoard (randomFill rnd (newBoardModel r c colors))"
| randomFill: "reachableBoard b \<Longrightarrow> reachableBoard (randomFill rnd b)"
| removeGroup: "reachableBoard b \<Longrightarrow> reachableBoard (removeGroup grp b)"
| applyGravity: "reachableBoard b \<Longrightarrow> reachableBoard (snd (applyGravity b))"
| refillEmptyCells: "reachableBoard b \<Longrightarrow> reachableBoard (snd (refillEmptyCells rnd b))"
| swapTiles: "reachableBoard b \<Longrightarrow> reachableBoard (swapTiles p q b)"
| clearAllTiles: "reachableBoard b \<Longrightarrow> reachableBoard (snd (clearAllTiles b))"
| createFromGroup:
    "reachableBoard b \<Longrightarrow>
     mbBoard (snd (createFromGroup \<lparr>mbBoard = Some b, mbMinGroupSize = m\<rparr> grp cen)) = Some b'
     \<Longrightarrow> reachableBoard b'"
| explode:
    "reachableBoard b \<Longrightarrow>
     mbBoard (snd (explode \<lparr>mbBoard = Some b, mbMinGroupSize = m\<rparr> r c)) = Some b'
     \<Longrightarrow> reachableBoard b'"

section \<open>Example boards\<close>

text \<open>
  A board given by its rows, as the concrete input of the examples below: a row array that
  holds the listed elements, and a special grid of the same shape that is \<open>None\<close> everywhere.
\<close>

definition rowOf :: "'a \<Rightarrow> 'a list \<Rightarrow> int \<Rightarrow> 'a" where
  "rowOf d xs c = (if 0 \<le> c \<and> c < int (length xs) then xs ! nat c else d)"

definition boardOf :: "Cell list list \<Rightarrow> BoardModel" where
  "boardOf xss =
     \<lparr>rows = int (length xss), cols = (case xss of [] \<Rightarrow> 0 | xs # _ \<Rightarrow> int (length xs)),
      availableColors = TILE_COLORS,
      grid = map (rowOf Undefined) xss,
      specialGrid = map (\<lambda>xs. rowOf None (map (\<lambda>_. Some SpecialNone) xs)) xss\<rparr>"

definition board2 :: BoardModel where
  "board2 = boardOf [[Tile Red, Null], [Tile Blue, Tile Red]]"

definition board3 :: BoardModel where
  "board3 = boardOf [[Tile Red, Tile Red, Tile Blue], [Tile Red, Tile Red, Tile Red]]"

text \<open>The five red cells of \<open>board3\<close>, in the order in which \<open>findGroup\<close> finds them from \<open>(0, 0)\<close>.\<close>

definition group5 :: "TilePos list" where
  "group5 = [TilePos 0 0, TilePos 0 1, TilePos 1 1, TilePos 1 2, TilePos 1 0]"

text \<open>A board whose largest group is a pair, and a board with no two equal neighbours.\<close>

definition boardPair :: BoardModel where
  "boardPair = boardOf [[Tile Red, Tile Red], [Tile Blue, Tile Green]]"

definition boardChecked :: BoardModel where
  "boardChecked = boardOf [[Tile Red, Tile Blue], [Tile Blue, Tile Red]]"

text \<open>
  A board of two rows and three columns filled with red (every draw gives index 3), and the
  board after its one group was turned into a mega bomb at \<open>(0, 0)\<close>.
\<close>

definition boardRed :: BoardModel where
  "boardRed = randomFill (\<lambda>r c. 3) (newBoardModel 2 3 [])"

definition boardBomb :: BoardModel where
  "boardBomb =
     the (mbBoard (snd (createFromGroup \<lparr>mbBoard = Some boardRed, mbMinGroupSize = 5\<rparr>
                          (findGroup boardRed 0 0) (TilePos 0 0))))"

text \<open>A board of three rows with a gap in each column.\<close>

definition boardFall :: BoardModel where
  "boardFall = boardOf [[Tile Red, Tile Blue], [Null, Tile Green], [Tile Yellow, Null]]"

text \<open>One column with two tiles above a gap.\<close>

definition boardStack :: BoardModel where
  "boardStack = boardOf [[Tile Red], [Tile Red], [Null]]"

section \<open>Properties of GameState\<close>

subsection \<open>applyGroup\<close>

text \<open>
  C3. \<open>applyGroup(size)\<close> changes nothing and returns 0 when \<open>canRemoveGroup(size)\<close> is
  false, which is the case exactly when the game is over or \<open>size < minGroupSize\<close>.
  Otherwise it returns \<open>size * baseScorePerTile\<close>, adds that to the score, takes exactly one
  move, and then decides the end of the game with win first: a score that reached the target
  sets game over with reason win; otherwise no move left sets game over with reason lose;
  otherwise the game goes on. Nothing else changes.
\<close>

theorem applyGroup_spec:
  fixes d :: GameStateData and sz :: int
  defines "d' \<equiv> snd (applyGroup sz d)"
  shows "(canRemoveGroup d sz \<longleftrightarrow> \<not> (gameOver d \<or> sz < GameConfig_minGroupSize))
       \<and> (\<not> canRemoveGroup d sz \<longrightarrow> applyGroup sz d = (0, d))
       \<and> (canRemoveGroup d sz \<longrightarrow>
             fst (applyGroup sz d) = sz * GameConfig_baseScorePerTile
           \<and> score d' = score d + sz * GameConfig_baseScorePerTile
           \<and> movesLeft d' = movesLeft d - 1
           \<and> targetScore d' = targetScore d
           \<and> reshufflesLeft d' = reshufflesLeft d
           \<and> bombsLeft d' = bombsLeft d
           \<and> teleportsLeft d' = teleportsLeft d
           \<and> (targetScore d' \<le> score d' \<longrightarrow> gameOver d' \<and> gameOverReason d' = Some Win)
           \<and> (score d' < targetScore d' \<and> movesLeft d' \<le> 0 \<longrightarrow>
                 gameOver d' \<and> gameOverReason d' = Some Lose)
           \<and> (score d' < targetScore d' \<and> 0 < movesLeft d' \<longrightarrow>
                 \<not> gameOver d' \<and> gameOverReason d' = gameOverReason d))"
  unfolding d'_def
  by (auto simp: applyGroup_def canRemoveGroup_def updateGameOver_def Let_def)

text \<open>
  The last move of a fresh game that also reaches the target: 50 tiles at once with one move
  left is a win, not a loss.
\<close>

theorem applyGroup_spec_witness:
  "canRemoveGroup (newGameState\<lparr>movesLeft := 1\<rparr>) 50
   \<and> applyGroup 50 (newGameState\<lparr>movesLeft := 1\<rparr>)
       = (500, newGameState\<lparr>score := 500, movesLeft := 0, gameOver := True,
                              gameOverReason := Some Win\<rparr>)
   \<and> \<not> canRemoveGroup newGameState 1
   \<and> applyGroup 1 newGameState = (0, newGameState)"
  using applyGroup_spec [of "newGameState\<lparr>movesLeft := 1\<rparr>" 50]
        applyGroup_spec [of newGameState 1]
  by (simp add: applyGroup_def canRemoveGroup_def updateGameOver_def Let_def newGameState_def
      GameConfig_minGroupSize_def GameConfig_baseScorePerTile_def GameConfig_targetScore_def
      GameConfig_startMoves_def)

subsection \<open>Counters and score over sequences of calls\<close>

text \<open>
  The invariant of the counters: none is negative, and a game that is not over has a move left.
\<close>

definition countersOk :: "GameStateData \<Rightarrow> bool" where
  "countersOk d =
     (0 \<le> movesLeft d \<and> 0 \<le> reshufflesLeft d \<and> 0 \<le> bombsLeft d \<and> 0 \<le> teleportsLeft d
      \<and> (gameOver d \<or> 0 < movesLeft d))"

lemma countersOk_new: "countersOk newGameState"
  by (simp add: countersOk_def newGameState_def GameConfig_startMoves_def
      GameConfig_reshuffleLimit_def GameConfig_startBombs_def GameConfig_startTeleports_def)

lemma countersOk_call: "countersOk d \<Longrightarrow> countersOk (call c d)"
  by (cases c)
     (auto simp: countersOk_def applyGroup_def applyBomb_def useReshuffle_def useBomb_def
        useTeleport_def canRemoveGroup_def canUseReshuffle_def canUseBomb_def canUseTeleport_def
        updateGameOver_def Let_def)

lemma countersOk_runCalls: "countersOk d \<Longrightarrow> countersOk (runCalls cs d)"
  unfolding runCalls_def
  by (induction cs arbitrary: d) (simp_all add: countersOk_call)

lemma score_call: "score d \<le> score (call c d)"
  by (cases c)
     (auto simp: applyGroup_def applyBomb_def useReshuffle_def useBomb_def useTeleport_def
        canRemoveGroup_def updateGameOver_def Let_def GameConfig_minGroupSize_def
        GameConfig_baseScorePerTile_def)

lemma score_runCalls: "score d \<le> score (runCalls cs d)"
  unfolding runCalls_def
proof (induction cs arbitrary: d)
  case Nil
  show ?case by simp
next
  case (Cons c cs)
  have "score d \<le> score (call c d)" by (rule score_call)
  also have "\<dots> \<le> score (fold call cs (call c d))" by (rule Cons.IH)
  finally show ?case by simp
qed

text \<open>
  C6. In every state \<open>d\<close> that a sequence of \<open>applyGroup\<close>, \<open>applyBomb\<close>, \<open>useReshuffle\<close>,
  \<open>useBomb\<close> and \<open>useTeleport\<close> calls (with any arguments) reaches from a new GameState, none of
  \<open>movesLeft\<close>, \<open>reshufflesLeft\<close>, \<open>bombsLeft\<close>, \<open>teleportsLeft\<close> is negative; no further
  sequence of calls lowers the score; and in any state \<open>s\<close> at all, each of \<open>useReshuffle\<close>,
  \<open>useBomb\<close>, \<open>useTeleport\<close> returns false and leaves the whole state as it is when its charge
  is 0 or the game is over.
\<close>

theorem counters_never_negative:
  fixes cs cs' :: "Call list" and s :: GameStateData
  defines "d \<equiv> runCalls cs newGameState"
  shows "0 \<le> movesLeft d \<and> 0 \<le> reshufflesLeft d \<and> 0 \<le> bombsLeft d \<and> 0 \<le> teleportsLeft d
       \<and> score d \<le> score (runCalls cs' d)
       \<and> (reshufflesLeft s = 0 \<or> gameOver s \<longrightarrow> useReshuffle s = (False, s))
       \<and> (bombsLeft s = 0 \<or> gameOver s \<longrightarrow> useBomb s = (False, s))
       \<and> (teleportsLeft s = 0 \<or> gameOver s \<longrightarrow> useTeleport s = (False, s))"
proof -
  have "countersOk d"
    unfolding d_def by (rule countersOk_runCalls [OF countersOk_new])
  then have "0 \<le> movesLeft d \<and> 0 \<le> reshufflesLeft d \<and> 0 \<le> bombsLeft d \<and> 0 \<le> teleportsLeft d"
    by (simp add: countersOk_def)
  moreover have "score d \<le> score (runCalls cs' d)"
    by (rule score_runCalls)
  moreover have "reshufflesLeft s = 0 \<or> gameOver s \<longrightarrow> useReshuffle s = (False, s)"
    by (auto simp: useReshuffle_def canUseReshuffle_def)
  moreover have "bombsLeft s = 0 \<or> gameOver s \<longrightarrow> useBomb s = (False, s)"
    by (auto simp: useBomb_def canUseBomb_def)
  moreover have "teleportsLeft s = 0 \<or> gameOver s \<longrightarrow> useTeleport s = (False, s)"
    by (auto simp: useTeleport_def canUseTeleport_def)
  ultimately show ?thesis by blast
qed

text \<open>
  Four bomb uses on a new game (three charges): the fourth finds the charge at 0 and changes
  nothing.
\<close>

theorem counters_never_negative_witness:
  "bombsLeft (runCalls [UseBomb, UseBomb, UseBomb] newGameState) = 0
   \<and> useBomb (runCalls [UseBomb, UseBomb, UseBomb] newGameState)
       = (False, runCalls [UseBomb, UseBomb, UseBomb] newGameState)
   \<and> 0 \<le> movesLeft (runCalls [UseBomb, UseBomb, UseBomb] newGameState)
   \<and> score (runCalls [UseBomb, UseBomb, UseBomb] newGameState)
       \<le> score (runCalls [ApplyGroup 3]
                  (runCalls [UseBomb, UseBomb, UseBomb] newGameState))"
  using counters_never_negative [where cs = "[UseBomb, UseBomb, UseBomb]"
          and cs' = "[ApplyGroup 3]"
          and s = "runCalls [UseBomb, UseBomb, UseBomb] newGameState"]
  by (simp add: runCalls_def useBomb_def canUseBomb_def newGameState_def
      GameConfig_startBombs_def)

section \<open>Lists of cells\<close>

lemma set_cells:
  "set [TilePos r c. r \<leftarrow> rs, c \<leftarrow> cs, P r c]
     = {p. row p \<in> set rs \<and> col p \<in> set cs \<and> P (row p) (col p)}"
proof (rule set_eqI)
  fix p
  obtain r c where p: "p = TilePos r c" by (cases p)
  show "p \<in> set [TilePos r c. r \<leftarrow> rs, c \<leftarrow> cs, P r c]
          \<longleftrightarrow> p \<in> {p. row p \<in> set rs \<and> col p \<in> set cs \<and> P (row p) (col p)}"
    unfolding p by auto
qed

lemma distinct_row_cells: "distinct cs \<Longrightarrow> distinct [TilePos r c. c \<leftarrow> cs, P c]"
  by (induction cs) auto

lemma distinct_cells:
  "distinct rs \<Longrightarrow> distinct cs \<Longrightarrow> distinct [TilePos r c. r \<leftarrow> rs, c \<leftarrow> cs, P r c]"
proof (induction rs)
  case Nil
  show ?case by simp
next
  case (Cons r rs)
  have "distinct [TilePos r c. c \<leftarrow> cs, P r c]"
    using Cons.prems(2) by (rule distinct_row_cells)
  moreover have "distinct [TilePos r c. r \<leftarrow> rs, c \<leftarrow> cs, P r c]"
    using Cons by simp
  moreover have "set [TilePos r c. c \<leftarrow> cs, P r c] \<inter> set [TilePos r c. r \<leftarrow> rs, c \<leftarrow> cs, P r c] = {}"
    using Cons.prems(1) by auto
  ultimately show ?case by simp
qed

lemma two_guards:
  "[f r c. r \<leftarrow> rs, c \<leftarrow> cs, P r c, Q r c] = [f r c. r \<leftarrow> rs, c \<leftarrow> cs, P r c \<and> Q r c]"
  by (intro arg_cong[where f = concat] map_cong refl) auto

lemma cellPositions_cells:
  "cellPositions b = [TilePos r c. r \<leftarrow> [0..rows b - 1], c \<leftarrow> [0..cols b - 1], True]"
  by (simp add: cellPositions_def)

lemma set_cellPositions: "set (cellPositions b) = {p. inBounds b (row p) (col p)}"
  by (simp only: cellPositions_cells set_cells) (auto simp: inBounds_def)

section \<open>Element reads after writes\<close>

lemma length_setAt [simp]: "length (setAt g r c v) = length g"
  by (simp add: setAt_def)

lemma TilePos_neq: "p \<noteq> q \<Longrightarrow> row p \<noteq> row q \<or> col p \<noteq> col q"
  by (auto simp: TilePos.expand)

lemma getAt_setAt_other:
  "0 \<le> r \<Longrightarrow> 0 \<le> r' \<Longrightarrow> r' \<noteq> r \<or> c' \<noteq> c \<Longrightarrow> getAt (setAt g r c v) r' c' = getAt g r' c'"
  by (cases "nat r < length g") (auto simp: getAt_def setAt_def nth_list_update list_update_beyond)

lemma getAt_setAt_same:
  "0 \<le> r \<Longrightarrow> nat r < length g \<Longrightarrow> getAt (setAt g r c v) r c = v"
  by (simp add: getAt_def setAt_def)

lemma removeCell_fields [simp]:
  "rows (removeCell p b) = rows b" "cols (removeCell p b) = cols b"
  "availableColors (removeCell p b) = availableColors b"
  by (simp_all add: removeCell_def)

lemma removeCell_inBounds [simp]: "inBounds (removeCell p b) r c = inBounds b r c"
  by (simp add: inBounds_def)

lemma removeCell_allocated: "allocated b \<Longrightarrow> allocated (removeCell p b)"
  by (simp add: allocated_def removeCell_def)

lemma removeCell_grid:
  assumes "allocated b" and "0 \<le> r"
  shows "getAt (grid (removeCell p b)) r c
           = (if p = TilePos r c \<and> inBounds b r c then Null else getAt (grid b) r c)"
proof (cases "inBounds b (row p) (col p)")
  case False
  then show ?thesis by (auto simp: removeCell_def)
next
  case True
  then have len: "nat (row p) < length (grid b)" "0 \<le> row p"
    using assms(1) by (auto simp: allocated_def inBounds_def)
  show ?thesis
  proof (cases "p = TilePos r c")
    case same: True
    then show ?thesis
      using True len by (simp add: removeCell_def getAt_setAt_same)
  next
    case other: False
    then have "r \<noteq> row p \<or> c \<noteq> col p" by (cases p) auto
    then show ?thesis
      using True len other assms(2) by (simp add: removeCell_def getAt_setAt_other)
  qed
qed

lemma removeCell_special:
  assumes "allocated b" and "0 \<le> r"
  shows "getAt (specialGrid (removeCell p b)) r c
           = (if p = TilePos r c \<and> inBounds b r c then Some SpecialNone
              else getAt (specialGrid b) r c)"
proof (cases "inBounds b (row p) (col p)")
  case False
  then show ?thesis by (auto simp: removeCell_def)
next
  case True
  then have len: "nat (row p) < length (specialGrid b)" "0 \<le> row p"
    using assms(1) by (auto simp: allocated_def inBounds_def)
  show ?thesis
  proof (cases "p = TilePos r c")
    case same: True
    then show ?thesis
      using True len by (simp add: removeCell_def getAt_setAt_same)
  next
    case other: False
    then have "r \<noteq> row p \<or> c \<noteq> col p" by (cases p) auto
    then show ?thesis
      using True len other assms(2) by (simp add: removeCell_def getAt_setAt_other)
  qed
qed

lemma removeGroup_fields [simp]:
  "rows (removeGroup grp b) = rows b" "cols (removeGroup grp b) = cols b"
  "availableColors (removeGroup grp b) = availableColors b"
  unfolding removeGroup_def by (induction grp arbitrary: b; simp)+

lemma removeGroup_inBounds [simp]: "inBounds (removeGroup grp b) r c = inBounds b r c"
  by (simp add: inBounds_def)

lemma removeGroup_lengths [simp]:
  "length (grid (removeGroup grp b)) = length (grid b)"
  "length (specialGrid (removeGroup grp b)) = length (specialGrid b)"
  unfolding removeGroup_def
  by (induction grp arbitrary: b; simp add: removeCell_def)+

lemma removeGroup_allocated: "allocated b \<Longrightarrow> allocated (removeGroup grp b)"
  unfolding removeGroup_def by (induction grp arbitrary: b) (simp_all add: removeCell_allocated)

lemma removeGroup_grid:
  assumes "allocated b" and "0 \<le> r"
  shows "getAt (grid (removeGroup grp b)) r c
           = (if TilePos r c \<in> set grp \<and> inBounds b r c then Null else getAt (grid b) r c)"
  using assms unfolding removeGroup_def
proof (induction grp arbitrary: b)
  case Nil
  show ?case by simp
next
  case (Cons p grp)
  have "getAt (grid (fold removeCell grp (removeCell p b))) r c
          = (if TilePos r c \<in> set grp \<and> inBounds (removeCell p b) r c then Null
             else getAt (grid (removeCell p b)) r c)"
    using Cons.prems by (intro Cons.IH removeCell_allocated)
  then show ?case
    using Cons.prems by (auto simp: removeCell_grid)
qed

lemma removeGroup_special:
  assumes "allocated b" and "0 \<le> r"
  shows "getAt (specialGrid (removeGroup grp b)) r c
           = (if TilePos r c \<in> set grp \<and> inBounds b r c then Some SpecialNone
              else getAt (specialGrid b) r c)"
  using assms unfolding removeGroup_def
proof (induction grp arbitrary: b)
  case Nil
  show ?case by simp
next
  case (Cons p grp)
  have "getAt (specialGrid (fold removeCell grp (removeCell p b))) r c
          = (if TilePos r c \<in> set grp \<and> inBounds (removeCell p b) r c then Some SpecialNone
             else getAt (specialGrid (removeCell p b)) r c)"
    using Cons.prems by (intro Cons.IH removeCell_allocated)
  then show ?case
    using Cons.prems by (auto simp: removeCell_special)
qed

lemma length_randomFill [simp]:
  "length (grid (randomFill rnd b)) = nat (rows b)"
  "length (specialGrid (randomFill rnd b)) = nat (rows b)"
  by (simp_all add: randomFill_def)

lemma randomFill_fields [simp]:
  "rows (randomFill rnd b) = rows b" "cols (randomFill rnd b) = cols b"
  "availableColors (randomFill rnd b) = availableColors b"
  by (simp_all add: randomFill_def)

lemma randomFill_allocated: "allocated (randomFill rnd b)"
  by (simp add: allocated_def)

section \<open>Properties of BombController\<close>

text \<open>
  C7. On a controller with a board, \<open>handleClick(r0, c0)\<close> while active returns the
  controller deactivated, with the same board and radius (the grid is not touched). The
  returned list holds, once each, exactly the cells of the grid within Chebyshev distance
  \<open>R\<close> of \<open>(r0, c0)\<close> that are not \<open>null\<close>. A second click on the returned controller gives
  the empty list, and \<open>toggle\<close> activates it again. While inactive, \<open>handleClick\<close> returns the
  empty list and changes nothing.
\<close>

theorem BombController_handleClick_spec:
  fixes ctrl :: BombController and b :: BoardModel
  assumes "bcBoard ctrl = Some b" and "allocated b"
  shows "(bcActive ctrl \<longrightarrow>
            snd (BombController_handleClick ctrl r0 c0) = ctrl\<lparr>bcActive := False\<rparr>
          \<and> set (fst (BombController_handleClick ctrl r0 c0))
              = {p. inBounds b (row p) (col p)
                    \<and> max \<bar>row p - r0\<bar> \<bar>col p - c0\<bar> \<le> bcRadius ctrl
                    \<and> getAt (grid b) (row p) (col p) \<noteq> Null}
          \<and> distinct (fst (BombController_handleClick ctrl r0 c0))
          \<and> fst (BombController_handleClick (snd (BombController_handleClick ctrl r0 c0)) r1 c1) = []
          \<and> bcActive (BombController_toggle (snd (BombController_handleClick ctrl r0 c0))))
       \<and> (\<not> bcActive ctrl \<longrightarrow> BombController_handleClick ctrl r0 c0 = ([], ctrl))"
proof -
  let ?cells = "[TilePos r c. r \<leftarrow> [r0 - bcRadius ctrl..r0 + bcRadius ctrl],
                  c \<leftarrow> [c0 - bcRadius ctrl..c0 + bcRadius ctrl],
                  \<not> (r < 0 \<or> rows b \<le> r \<or> c < 0 \<or> cols b \<le> c),
                  \<not> (getAt (grid b) r c = Null)]"
  have inactive: "\<not> bcActive c \<Longrightarrow> BombController_handleClick c r c' = ([], c)" for c r c'
    by (simp add: BombController_handleClick_def split: option.splits)
  have active: "BombController_handleClick ctrl r0 c0 = (?cells, ctrl\<lparr>bcActive := False\<rparr>)"
    if "bcActive ctrl"
    using that assms(1) by (simp add: BombController_handleClick_def Let_def)
  have cells_set: "set ?cells = {p. inBounds b (row p) (col p)
                    \<and> max \<bar>row p - r0\<bar> \<bar>col p - c0\<bar> \<le> bcRadius ctrl
                    \<and> getAt (grid b) (row p) (col p) \<noteq> Null}"
    by (simp only: two_guards set_cells) (auto simp: inBounds_def)
  have cells_distinct: "distinct ?cells"
    by (simp only: two_guards) (rule distinct_cells, simp_all)
  show ?thesis
  proof (intro conjI impI)
    assume a: "bcActive ctrl"
    show "snd (BombController_handleClick ctrl r0 c0) = ctrl\<lparr>bcActive := False\<rparr>"
      by (simp add: active [OF a])
    show "set (fst (BombController_handleClick ctrl r0 c0))
            = {p. inBounds b (row p) (col p)
                    \<and> max \<bar>row p - r0\<bar> \<bar>col p - c0\<bar> \<le> bcRadius ctrl
                    \<and> getAt (grid b) (row p) (col p) \<noteq> Null}"
      using cells_set by (simp only: active [OF a] fst_conv)
    show "distinct (fst (BombController_handleClick ctrl r0 c0))"
      using cells_distinct by (simp only: active [OF a] fst_conv)
    show "fst (BombController_handleClick (snd (BombController_handleClick ctrl r0 c0)) r1 c1) = []"
      by (simp add: active [OF a] inactive)
    show "bcActive (BombController_toggle (snd (BombController_handleClick ctrl r0 c0)))"
      by (simp add: active [OF a] BombController_toggle_def)
  next
    assume "\<not> bcActive ctrl"
    then show "BombController_handleClick ctrl r0 c0 = ([], ctrl)" by (rule inactive)
  qed
qed

text \<open>
  A bomb of radius 1 in the top left corner of the 2 x 2 board \<open>board2\<close>: the square is
  clipped to the four cells of the grid, and the empty cell \<open>(0, 1)\<close> is left out.
\<close>

theorem BombController_handleClick_spec_witness:
  "bcBoard \<lparr>bcBoard = Some board2, bcActive = True, bcRadius = 1\<rparr> = Some board2
   \<and> allocated board2
   \<and> BombController_handleClick \<lparr>bcBoard = Some board2, bcActive = True, bcRadius = 1\<rparr> 0 0
       = ([TilePos 0 0, TilePos 1 0, TilePos 1 1],
          \<lparr>bcBoard = Some board2, bcActive = False, bcRadius = 1\<rparr>)
   \<and> fst (BombController_handleClick
            (snd (BombController_handleClick
                    \<lparr>bcBoard = Some board2, bcActive = True, bcRadius = 1\<rparr> 0 0)) 0 0) = []"
  using BombController_handleClick_spec
          [of "\<lparr>bcBoard = Some board2, bcActive = True, bcRadius = 1\<rparr>" board2 0 0 0 0]
  by (simp add: BombController_handleClick_def board2_def boardOf_def getAt_def rowOf_def
      upto.simps allocated_def)

section \<open>Properties of TeleportController\<close>

text \<open>What \<open>swapTiles\<close> does to the cells of an allocated board.\<close>

lemma swapTiles_cells:
  fixes b :: BoardModel
  assumes "allocated b" and "inBounds b (row p) (col p)" and "inBounds b (row q) (col q)"
    and "0 \<le> r"
  shows "getAt (grid (swapTiles p q b)) r c
           = (if r = row q \<and> c = col q then getAt (grid b) (row p) (col p)
              else if r = row p \<and> c = col p then getAt (grid b) (row q) (col q)
              else getAt (grid b) r c)"
  using assms
  by (auto simp: swapTiles_def Let_def getAt_setAt_same getAt_setAt_other allocated_def
      inBounds_def)

text \<open>
  C8. On a controller with an allocated board, a click at \<open>pos\<close> while active: with no selection,
  selects \<open>pos\<close>; on the selected cell, clears the selection; at a Manhattan distance other
  than 1 from the selection \<open>first\<close> (and not on it), moves the selection to \<open>pos\<close> and leaves
  the board as it is; at Manhattan distance 1, replaces the board by
  \<open>swapTiles first pos\<close> of it, clears the selection and deactivates the mode; with both
  cells in the grid, \<open>swapTiles\<close> exchanges their colours. While inactive, \<open>handleClick\<close>
  returns \<open>null\<close> and changes nothing.
\<close>

theorem TeleportController_handleClick_spec:
  fixes ctrl :: TeleportController and b :: BoardModel and pos first :: TilePos
  assumes "tcBoardModel ctrl = Some b" and "allocated b"
  shows "(\<not> tcActive ctrl \<longrightarrow> TeleportController_handleClick ctrl pos = (None, ctrl))
       \<and> (tcActive ctrl \<and> tcFirst ctrl = None \<longrightarrow>
            TeleportController_handleClick ctrl pos
              = (Some (Select pos), ctrl\<lparr>tcFirst := Some pos\<rparr>))
       \<and> (tcActive ctrl \<and> tcFirst ctrl = Some pos \<longrightarrow>
            TeleportController_handleClick ctrl pos
              = (Some (Deselect pos), ctrl\<lparr>tcFirst := None\<rparr>))
       \<and> (tcActive ctrl \<and> tcFirst ctrl = Some first \<and> first \<noteq> pos
            \<and> \<bar>row first - row pos\<bar> + \<bar>col first - col pos\<bar> \<noteq> 1 \<longrightarrow>
            TeleportController_handleClick ctrl pos
              = (Some (Reselect first pos), ctrl\<lparr>tcFirst := Some pos\<rparr>))
       \<and> (tcActive ctrl \<and> tcFirst ctrl = Some first
            \<and> \<bar>row first - row pos\<bar> + \<bar>col first - col pos\<bar> = 1 \<longrightarrow>
            TeleportController_handleClick ctrl pos
              = (Some (Swap first pos),
                 ctrl\<lparr>tcBoardModel := Some (swapTiles first pos b),
                      tcFirst := None, tcActive := False\<rparr>))
       \<and> (inBounds b (row first) (col first) \<and> inBounds b (row pos) (col pos) \<longrightarrow>
            getAt (grid (swapTiles first pos b)) (row first) (col first)
              = getAt (grid b) (row pos) (col pos)
          \<and> getAt (grid (swapTiles first pos b)) (row pos) (col pos)
              = getAt (grid b) (row first) (col first))"
proof -
  have ne: "\<not> (row first = row pos \<and> col first = col pos)" if "first \<noteq> pos"
    using that by (cases first, cases pos) simp
  have ne': "\<not> (row first = row pos \<and> col first = col pos)"
    if "\<bar>row first - row pos\<bar> + \<bar>col first - col pos\<bar> = 1"
    using that by auto
  have swap: "getAt (grid (swapTiles first pos b)) (row first) (col first)
              = getAt (grid b) (row pos) (col pos)
          \<and> getAt (grid (swapTiles first pos b)) (row pos) (col pos)
              = getAt (grid b) (row first) (col first)"
    if "inBounds b (row first) (col first) \<and> inBounds b (row pos) (col pos)"
    using that swapTiles_cells [OF assms(2), of first pos]
    by (auto simp: inBounds_def)
  show ?thesis
    using assms(1) ne ne' swap
    by (auto simp: TeleportController_handleClick_def Let_def)
qed

text \<open>
  On \<open>board2\<close> with \<open>(0, 0)\<close> selected: a click on the neighbour \<open>(1, 0)\<close> swaps red and
  blue and ends the mode; a click on the diagonal cell \<open>(1, 1)\<close> moves the selection.
\<close>

theorem TeleportController_handleClick_spec_witness:
  "tcBoardModel \<lparr>tcBoardModel = Some board2, tcActive = True, tcFirst = Some (TilePos 0 0)\<rparr>
     = Some board2
   \<and> allocated board2
   \<and> TeleportController_handleClick
         \<lparr>tcBoardModel = Some board2, tcActive = True, tcFirst = Some (TilePos 0 0)\<rparr> (TilePos 1 0)
       = (Some (Swap (TilePos 0 0) (TilePos 1 0)),
          \<lparr>tcBoardModel = Some (swapTiles (TilePos 0 0) (TilePos 1 0) board2),
           tcActive = False, tcFirst = None\<rparr>)
   \<and> getAt (grid (swapTiles (TilePos 0 0) (TilePos 1 0) board2)) 0 0 = Tile Blue
   \<and> getAt (grid (swapTiles (TilePos 0 0) (TilePos 1 0) board2)) 1 0 = Tile Red
   \<and> TeleportController_handleClick
         \<lparr>tcBoardModel = Some board2, tcActive = True, tcFirst = Some (TilePos 0 0)\<rparr> (TilePos 1 1)
       = (Some (Reselect (TilePos 0 0) (TilePos 1 1)),
          \<lparr>tcBoardModel = Some board2, tcActive = True, tcFirst = Some (TilePos 1 1)\<rparr>)"
  using TeleportController_handleClick_spec
          [of "\<lparr>tcBoardModel = Some board2, tcActive = True, tcFirst = Some (TilePos 0 0)\<rparr>"
              board2 "TilePos 1 0" "TilePos 0 0"]
        TeleportController_handleClick_spec
          [of "\<lparr>tcBoardModel = Some board2, tcActive = True, tcFirst = Some (TilePos 0 0)\<rparr>"
              board2 "TilePos 1 1" "TilePos 0 0"]
  by (simp add: swapTiles_def Let_def inBounds_def board2_def boardOf_def getAt_def setAt_def
      rowOf_def allocated_def)

section \<open>Properties of MegaBombController\<close>

lemma withoutCenter_eq:
  "filter (\<lambda>p. \<not> (row p = row cen \<and> col p = col cen)) grp = filter (\<lambda>p. p \<noteq> cen) grp"
proof -
  have "(row p = row cen \<and> col p = col cen) \<longleftrightarrow> p = cen" for p
    by (cases p, cases cen) auto
  then show ?thesis by simp
qed

text \<open>
  On a controller with an allocated board: \<open>createFromGroup(group, center)\<close> with
  \<open>group.length < megaBombMinGroupSize\<close> returns \<open>created = false\<close> with no removed cell and
  changes nothing. With \<open>group.length >= megaBombMinGroupSize\<close> and \<open>center\<close> on a row of the
  grid, it returns \<open>created = true\<close>, the centre, and as \<open>removedCells\<close> the group without
  the centre, so the centre is never among them; on the new board the centre holds the
  MegaBomb colour, every cell of the group in the grid other than the centre is empty with
  its special flag cleared, and every other cell of the grid is as before.
\<close>

theorem createFromGroup_spec:
  fixes ctrl :: MegaBombController and b :: BoardModel
  assumes "mbBoard ctrl = Some b" and "allocated b"
  shows "(int (length grp) < mbMinGroupSize ctrl \<longrightarrow>
            createFromGroup ctrl grp cen = (Inr (MegaBombCreationResult False None []), ctrl))
       \<and> (mbMinGroupSize ctrl \<le> int (length grp) \<and> 0 \<le> row cen \<and> row cen < rows b \<longrightarrow>
            (\<exists>b'. createFromGroup ctrl grp cen
                     = (Inr (MegaBombCreationResult True (Some cen) (filter (\<lambda>p. p \<noteq> cen) grp)),
                        ctrl\<lparr>mbBoard := Some b'\<rparr>)
                 \<and> cen \<notin> set (filter (\<lambda>p. p \<noteq> cen) grp)
                 \<and> getAt (grid b') (row cen) (col cen) = Tile MegaBomb
                 \<and> (\<forall>p \<in> set grp. p \<noteq> cen \<and> inBounds b (row p) (col p) \<longrightarrow>
                       getAt (grid b') (row p) (col p) = Null
                     \<and> getAt (specialGrid b') (row p) (col p) = Some SpecialNone)
                 \<and> (\<forall>p. inBounds b (row p) (col p) \<and> p \<notin> set grp \<and> p \<noteq> cen \<longrightarrow>
                       getAt (grid b') (row p) (col p) = getAt (grid b) (row p) (col p))
                 \<and> rows b' = rows b \<and> cols b' = cols b))"
proof (intro conjI impI)
  assume "int (length grp) < mbMinGroupSize ctrl"
  then show "createFromGroup ctrl grp cen = (Inr (MegaBombCreationResult False None []), ctrl)"
    using assms(1) by (simp add: createFromGroup_def)
next
  assume h: "mbMinGroupSize ctrl \<le> int (length grp) \<and> 0 \<le> row cen \<and> row cen < rows b"
  let ?wc = "filter (\<lambda>p. p \<noteq> cen) grp"
  let ?b1 = "removeGroup ?wc b"
  let ?b' = "?b1\<lparr>grid := setAt (grid ?b1) (row cen) (col cen) (Tile MegaBomb)\<rparr>"
  have al1: "allocated ?b1" using assms(2) by (rule removeGroup_allocated)
  have cen0: "0 \<le> row cen" "nat (row cen) < length (grid ?b1)"
    using h al1 by (auto simp: inBounds_def allocated_def)
  then have ex: "rowExists (grid ?b1) (row cen)"
    by (auto simp: rowExists_def)
  have res: "createFromGroup ctrl grp cen
               = (Inr (MegaBombCreationResult True (Some cen) ?wc), ctrl\<lparr>mbBoard := Some ?b'\<rparr>)"
    unfolding createFromGroup_def withoutCenter_eq
    using assms(1) h ex by (simp add: Let_def)
  have center: "getAt (grid ?b') (row cen) (col cen) = Tile MegaBomb"
    using cen0 by (simp add: getAt_setAt_same)
  have removed: "getAt (grid ?b') (row p) (col p) = Null
                 \<and> getAt (specialGrid ?b') (row p) (col p) = Some SpecialNone"
    if "p \<in> set grp" "p \<noteq> cen \<and> inBounds b (row p) (col p)" for p
  proof -
    have p0: "0 \<le> row p" using that by (simp add: inBounds_def)
    have ne: "row p \<noteq> row cen \<or> col p \<noteq> col cen" using that TilePos_neq [of p cen] by blast
    have "getAt (grid ?b') (row p) (col p) = getAt (grid ?b1) (row p) (col p)"
      using p0 cen0 ne by (simp add: getAt_setAt_other)
    also have "\<dots> = Null"
      using that assms(2) p0 by (simp add: removeGroup_grid)
    finally have "getAt (grid ?b') (row p) (col p) = Null" .
    moreover have "getAt (specialGrid ?b') (row p) (col p) = Some SpecialNone"
      using that assms(2) p0 by (simp add: removeGroup_special)
    ultimately show ?thesis by simp
  qed
  have kept: "getAt (grid ?b') (row p) (col p) = getAt (grid b) (row p) (col p)"
    if "inBounds b (row p) (col p) \<and> p \<notin> set grp \<and> p \<noteq> cen" for p
  proof -
    have p0: "0 \<le> row p" using that by (simp add: inBounds_def)
    have ne: "row p \<noteq> row cen \<or> col p \<noteq> col cen" using that TilePos_neq [of p cen] by blast
    have "getAt (grid ?b') (row p) (col p) = getAt (grid ?b1) (row p) (col p)"
      using p0 cen0 ne by (simp add: getAt_setAt_other)
    also have "\<dots> = getAt (grid b) (row p) (col p)"
      using that assms(2) p0 by (simp add: removeGroup_grid)
    finally show ?thesis .
  qed
  show "\<exists>b'. createFromGroup ctrl grp cen
                 = (Inr (MegaBombCreationResult True (Some cen) ?wc), ctrl\<lparr>mbBoard := Some b'\<rparr>)
             \<and> cen \<notin> set ?wc
             \<and> getAt (grid b') (row cen) (col cen) = Tile MegaBomb
             \<and> (\<forall>p \<in> set grp. p \<noteq> cen \<and> inBounds b (row p) (col p) \<longrightarrow>
                   getAt (grid b') (row p) (col p) = Null
                 \<and> getAt (specialGrid b') (row p) (col p) = Some SpecialNone)
             \<and> (\<forall>p. inBounds b (row p) (col p) \<and> p \<notin> set grp \<and> p \<noteq> cen \<longrightarrow>
                   getAt (grid b') (row p) (col p) = getAt (grid b) (row p) (col p))
             \<and> rows b' = rows b \<and> cols b' = cols b"
  proof (intro exI [of _ ?b'] conjI ballI allI impI)
    show "createFromGroup ctrl grp cen
            = (Inr (MegaBombCreationResult True (Some cen) ?wc), ctrl\<lparr>mbBoard := Some ?b'\<rparr>)"
      by (rule res)
    show "cen \<notin> set ?wc" by simp
    show "getAt (grid ?b') (row cen) (col cen) = Tile MegaBomb" by (rule center)
    show "rows ?b' = rows b" by simp
    show "cols ?b' = cols b" by simp
  next
    fix p assume "p \<in> set grp" "p \<noteq> cen \<and> inBounds b (row p) (col p)"
    then show "getAt (grid ?b') (row p) (col p) = Null"
      and "getAt (specialGrid ?b') (row p) (col p) = Some SpecialNone"
      using removed by blast+
  next
    fix p assume "inBounds b (row p) (col p) \<and> p \<notin> set grp \<and> p \<noteq> cen"
    then show "getAt (grid ?b') (row p) (col p) = getAt (grid b) (row p) (col p)"
      by (rule kept)
  qed
qed

text \<open>
  The five red cells of \<open>board3\<close> with the centre \<open>(0, 0)\<close>: the centre becomes the mega
  bomb, the four others are removed, the blue cell stays.
\<close>

theorem createFromGroup_spec_witness:
  "mbBoard \<lparr>mbBoard = Some board3, mbMinGroupSize = 5\<rparr> = Some board3
   \<and> allocated board3
   \<and> mbMinGroupSize \<lparr>mbBoard = Some board3, mbMinGroupSize = 5\<rparr> \<le> int (length group5)
   \<and> (0::int) \<le> row (TilePos 0 0) \<and> row (TilePos 0 0) < rows board3
   \<and> fst (createFromGroup \<lparr>mbBoard = Some board3, mbMinGroupSize = 5\<rparr> group5 (TilePos 0 0))
       = Inr (MegaBombCreationResult True (Some (TilePos 0 0))
               [TilePos 0 1, TilePos 1 1, TilePos 1 2, TilePos 1 0])
   \<and> map (\<lambda>r. map (getAt (grid (the (mbBoard (snd
            (createFromGroup \<lparr>mbBoard = Some board3, mbMinGroupSize = 5\<rparr> group5 (TilePos 0 0)))))) r)
              [0, 1, 2]) [0, 1]
       = [[Tile MegaBomb, Null, Tile Blue], [Null, Null, Null]]"
  using createFromGroup_spec
          [of "\<lparr>mbBoard = Some board3, mbMinGroupSize = 5\<rparr>" board3 group5 "TilePos 0 0"]
  by (simp add: createFromGroup_def Let_def group5_def board3_def boardOf_def rowExists_def
      removeGroup_def removeCell_def inBounds_def setAt_def getAt_def rowOf_def allocated_def)

subsection \<open>Coordinates outside the grid\<close>

text \<open>
  \<open>swapTiles\<close> checks both end points and does nothing when one is outside the grid;
  \<open>explode\<close> returns \<open>null\<close> for a cell on an existing row that does not hold the MegaBomb
  colour, whatever the column.
\<close>

lemma swapTiles_out_of_bounds:
  "\<not> inBounds b (row p) (col p) \<or> \<not> inBounds b (row q) (col q) \<Longrightarrow> swapTiles p q b = b"
  by (auto simp: swapTiles_def)

lemma explode_not_MegaBomb:
  "mbBoard ctrl = Some b \<Longrightarrow> rowExists (grid b) r \<Longrightarrow> getAt (grid b) r c \<noteq> Tile MegaBomb
     \<Longrightarrow> explode ctrl r c = (Inr None, ctrl)"
  by (simp add: explode_def)

text \<open>
  \<open>explode\<close>, \<open>isMegaBomb\<close> and \<open>createFromGroup\<close> index the grid with the row they are
  given: on a row that does not exist they raise.
\<close>

lemma explode_missing_row:
  "mbBoard ctrl = Some b \<Longrightarrow> \<not> rowExists (grid b) r \<Longrightarrow> explode ctrl r c = (Inl TypeError, ctrl)"
  by (simp add: explode_def)

lemma isMegaBomb_missing_row:
  "mbBoard ctrl = Some b \<Longrightarrow> \<not> rowExists (grid b) r
     \<Longrightarrow> MegaBombController_isMegaBomb ctrl r c = Inl TypeError"
  by (simp add: MegaBombController_isMegaBomb_def)

lemma createFromGroup_missing_row:
  assumes "mbBoard ctrl = Some b" and "mbMinGroupSize ctrl \<le> int (length grp)"
    and "\<not> rowExists (grid b) (row cen)"
  shows "fst (createFromGroup ctrl grp cen) = Inl TypeError"
proof -
  have "length (grid (fold removeCell xs b')) = length (grid b')" for xs and b' :: BoardModel
    by (induction xs arbitrary: b') (simp_all add: removeCell_def)
  then have "\<not> rowExists (grid (removeGroup xs b)) (row cen)" for xs
    using assms(3) by (simp add: rowExists_def removeGroup_def)
  then show ?thesis
    using assms(1,2) by (simp add: createFromGroup_def Let_def)
qed

text \<open>
  C9. The claim is that for every group and centre \<open>createFromGroup\<close> with a group of at
  least \<open>megaBombMinGroupSize\<close> cells removes the group's other cells, sets the centre's
  colour to the MegaBomb marker and returns the removed cells. With the five red cells of
  \<open>board3\<close> and the centre \<open>(9, 0)\<close>, on a row the grid does not have, the code removes
  all five cells and then raises a TypeError at the write \<open>grid[9][0] = MegaBomb\<close>: nothing
  is returned and no cell holds the marker.
\<close>

theorem createFromGroup_off_grid_centre_raises:
  "createFromGroup \<lparr>mbBoard = Some board3, mbMinGroupSize = 5\<rparr> group5 (TilePos 9 0)
     = (Inl TypeError, \<lparr>mbBoard = Some (removeGroup group5 board3), mbMinGroupSize = 5\<rparr>)
   \<and> map (\<lambda>r. map (getAt (grid (removeGroup group5 board3)) r) [0, 1, 2]) [0, 1]
       = [[Null, Null, Tile Blue], [Null, Null, Null]]"
proof -
  have wc: "filter (\<lambda>p. \<not> (row p = row (TilePos 9 0) \<and> col p = col (TilePos 9 0))) group5 = group5"
    by (simp add: group5_def)
  have len: "length (grid board3) = 2"
    by (simp add: board3_def boardOf_def)
  have "\<not> rowExists (grid (removeGroup group5 board3)) (row (TilePos 9 0))"
    by (simp add: rowExists_def len)
  then have 1: "createFromGroup \<lparr>mbBoard = Some board3, mbMinGroupSize = 5\<rparr> group5 (TilePos 9 0)
     = (Inl TypeError, \<lparr>mbBoard = Some (removeGroup group5 board3), mbMinGroupSize = 5\<rparr>)"
    unfolding createFromGroup_def wc Let_def by (simp add: group5_def)
  have 2: "map (\<lambda>r. map (getAt (grid (removeGroup group5 board3)) r) [0, 1, 2]) [0, 1]
       = [[Null, Null, Tile Blue], [Null, Null, Null]]"
    by (simp add: group5_def board3_def boardOf_def removeGroup_def removeCell_def inBounds_def
        setAt_def getAt_def rowOf_def)
  show ?thesis using 1 2 by simp
qed

text \<open>
  C4. The claim is that no operation raises on coordinates outside the grid, and that
  \<open>explode\<close> on an out-of-range cell returns \<open>null\<close>. On the game's own board (9 rows and 9
  columns, filled by \<open>randomFill\<close> with any random numbers), \<open>explode(9, 0)\<close> reads
  \<open>grid[9][0]\<close>, where \<open>grid[9]\<close> is \<open>undefined\<close>, and raises a TypeError.
\<close>

theorem explode_out_of_range_raises:
  "explode \<lparr>mbBoard = Some (randomFill rnd
                               (newBoardModel BoardConfig_rows BoardConfig_cols TILE_COLORS)),
            mbMinGroupSize = GameConfig_megaBombMinGroupSize\<rparr> 9 0
     = (Inl TypeError,
        \<lparr>mbBoard = Some (randomFill rnd
                           (newBoardModel BoardConfig_rows BoardConfig_cols TILE_COLORS)),
         mbMinGroupSize = GameConfig_megaBombMinGroupSize\<rparr>)"
proof (rule explode_missing_row)
  show "mbBoard \<lparr>mbBoard = Some (randomFill rnd
                           (newBoardModel BoardConfig_rows BoardConfig_cols TILE_COLORS)),
         mbMinGroupSize = GameConfig_megaBombMinGroupSize\<rparr> = Some (randomFill rnd
                           (newBoardModel BoardConfig_rows BoardConfig_cols TILE_COLORS))" by simp
  show "\<not> rowExists (grid (randomFill rnd
                               (newBoardModel BoardConfig_rows BoardConfig_cols TILE_COLORS))) 9"
    by (simp add: rowExists_def newBoardModel_def BoardConfig_rows_def)
qed

section \<open>Properties of BoardModel\<close>

subsection \<open>hasAnyMoves\<close>

text \<open>A cell that holds a colour and has that colour below it or to its right.\<close>

definition pairAt :: "BoardModel \<Rightarrow> TilePos \<Rightarrow> bool" where
  "pairAt b p =
     (\<exists>color. getAt (grid b) (row p) (col p) = Tile color
        \<and> (inBounds b (row p + 1) (col p) \<and> getAt (grid b) (row p + 1) (col p) = Tile color
           \<or> inBounds b (row p) (col p + 1) \<and> getAt (grid b) (row p) (col p + 1) = Tile color))"

lemma anyMoveFrom_iff: "anyMoveFrom b ps \<longleftrightarrow> (\<exists>p \<in> set ps. pairAt b p)"
  by (induction ps) (auto simp: pairAt_def split: Cell.splits)

text \<open>
  C5. On an allocated board, \<open>hasAnyMoves(minGroupSize)\<close> is true whenever
  \<open>minGroupSize <= 1\<close>; otherwise it is true exactly when some cell of the grid holds a
  colour and the cell below it or the cell to its right is in the grid and holds the same
  colour. The threshold plays no other part.
\<close>

theorem hasAnyMoves_spec:
  fixes b :: BoardModel
  assumes "allocated b"
  shows "(minGroupSize \<le> 1 \<longrightarrow> hasAnyMoves b minGroupSize)
       \<and> (1 < minGroupSize \<longrightarrow>
            (hasAnyMoves b minGroupSize \<longleftrightarrow>
               (\<exists>r c color. inBounds b r c \<and> getAt (grid b) r c = Tile color
                  \<and> (inBounds b (r + 1) c \<and> getAt (grid b) (r + 1) c = Tile color
                     \<or> inBounds b r (c + 1) \<and> getAt (grid b) r (c + 1) = Tile color))))"
proof (intro conjI impI)
  assume "minGroupSize \<le> 1"
  then show "hasAnyMoves b minGroupSize" by (simp add: hasAnyMoves_def)
next
  assume big: "1 < minGroupSize"
  have "hasAnyMoves b minGroupSize \<longleftrightarrow> (\<exists>p. inBounds b (row p) (col p) \<and> pairAt b p)"
    using big by (auto simp: hasAnyMoves_def anyMoveFrom_iff set_cellPositions)
  also have "\<dots> \<longleftrightarrow> (\<exists>r c color. inBounds b r c \<and> getAt (grid b) r c = Tile color
                  \<and> (inBounds b (r + 1) c \<and> getAt (grid b) (r + 1) c = Tile color
                     \<or> inBounds b r (c + 1) \<and> getAt (grid b) r (c + 1) = Tile color))"
    (is "?L \<longleftrightarrow> ?R")
  proof
    assume ?L
    then obtain p where "inBounds b (row p) (col p)" "pairAt b p" by blast
    then show ?R unfolding pairAt_def by blast
  next
    assume ?R
    then obtain r c color where h: "inBounds b r c" "getAt (grid b) r c = Tile color"
      "inBounds b (r + 1) c \<and> getAt (grid b) (r + 1) c = Tile color
         \<or> inBounds b r (c + 1) \<and> getAt (grid b) r (c + 1) = Tile color"
      by blast
    then have "inBounds b (row (TilePos r c)) (col (TilePos r c)) \<and> pairAt b (TilePos r c)"
      by (auto simp: pairAt_def)
    then show ?L by blast
  qed
  finally show "hasAnyMoves b minGroupSize \<longleftrightarrow>
               (\<exists>r c color. inBounds b r c \<and> getAt (grid b) r c = Tile color
                  \<and> (inBounds b (r + 1) c \<and> getAt (grid b) (r + 1) c = Tile color
                     \<or> inBounds b r (c + 1) \<and> getAt (grid b) r (c + 1) = Tile color))" .
qed

text \<open>
  With the threshold 3, \<open>boardPair\<close> has a move by this test although its largest group has
  two cells; \<open>boardChecked\<close> has none with the threshold 2.
\<close>

theorem hasAnyMoves_spec_witness:
  "allocated boardPair \<and> (1::int) < 3 \<and> hasAnyMoves boardPair 3
   \<and> findGroup boardPair 0 0 = [TilePos 0 0, TilePos 0 1]
   \<and> allocated boardChecked \<and> \<not> hasAnyMoves boardChecked 2 \<and> hasAnyMoves boardChecked 1"
  using hasAnyMoves_spec [of boardPair 3] hasAnyMoves_spec [of boardChecked 2]
  by (simp add: hasAnyMoves_def cellPositions_def boardPair_def boardChecked_def boardOf_def
      upto.simps getAt_def rowOf_def inBounds_def allocated_def findGroup_def floodFill.simps)

subsection \<open>The special grid on reachable boards\<close>

text \<open>Every entry of the special grid inside the grid's bounds is \<open>TileSpecial.None\<close>.\<close>

definition specialsNone :: "BoardModel \<Rightarrow> SpecialGrid \<Rightarrow> bool" where
  "specialsNone b s = (\<forall>r c. inBounds b r c \<longrightarrow> getAt s r c = Some SpecialNone)"

lemma fold_invariant:
  assumes "P s" and "\<And>x s. x \<in> set xs \<Longrightarrow> P s \<Longrightarrow> P (f x s)"
  shows "P (fold f xs s)"
  using assms by (induction xs arbitrary: s) simp_all

lemma getAt_setAt_cases: "getAt (setAt g r c v) r' c' = v \<or> getAt (setAt g r c v) r' c' = getAt g r' c'"
  by (cases "nat r < length g"; cases "nat r' = nat r"; cases "c' = c")
     (simp_all add: getAt_def setAt_def list_update_beyond)

lemma specialsNone_setAt:
  "specialsNone b s \<Longrightarrow> specialsNone b (setAt s r c (Some SpecialNone))"
  unfolding specialsNone_def using getAt_setAt_cases by metis

definition boardInv :: "BoardModel \<Rightarrow> bool" where
  "boardInv b = (allocated b \<and> specialsNone b (specialGrid b))"

lemma randomFill_boardInv: "boardInv (randomFill rnd b)"
proof -
  have "getAt (specialGrid (randomFill rnd b)) r c = Some SpecialNone" if "inBounds b r c" for r c
  proof -
    have "nat r < length [0..rows b - 1]" using that by (simp add: inBounds_def)
    then show ?thesis
      using that by (simp add: randomFill_def getAt_def inBounds_def)
  qed
  then show ?thesis
    by (simp add: boardInv_def randomFill_allocated specialsNone_def inBounds_def)
qed


lemma specialsNone_cong:
  "rows b' = rows b \<Longrightarrow> cols b' = cols b \<Longrightarrow> specialsNone b' s = specialsNone b s"
  by (simp add: specialsNone_def inBounds_def)

lemma removeCell_boardInv: "boardInv b \<Longrightarrow> boardInv (removeCell p b)"
  by (auto simp: boardInv_def removeCell_def allocated_def specialsNone_setAt
      specialsNone_cong [of "b\<lparr>grid := g, specialGrid := s\<rparr>" b for g s])

lemma removeGroup_boardInv: "boardInv b \<Longrightarrow> boardInv (removeGroup grp b)"
  unfolding removeGroup_def by (rule fold_invariant) (simp_all add: removeCell_boardInv)

text \<open>The loops of \<open>applyGravity\<close> keep the shape of both grids and the special grid's content.\<close>

definition gravityInv :: "BoardModel \<Rightarrow> GravityState \<Rightarrow> bool" where
  "gravityInv b st =
     (length (gGrid st) = nat (rows b) \<and> length (gSpecial st) = nat (rows b)
      \<and> specialsNone b (gSpecial st))"

lemma gravityCell_inv:
  assumes "gravityInv b st" and "inBounds b r c"
  shows "gravityInv b (gravityCell c r st)"
proof -
  have "getAt (gSpecial st) r c = Some SpecialNone"
    using assms by (simp add: gravityInv_def specialsNone_def)
  then show ?thesis
    using assms(1) by (simp add: gravityCell_def gravityInv_def Let_def specialsNone_setAt)
qed

lemma clearCell_inv: "gravityInv b st \<Longrightarrow> gravityInv b (clearCell c r st)"
  by (simp add: clearCell_def gravityInv_def specialsNone_setAt)

lemma gravityColumn_inv:
  assumes "gravityInv b st" and "0 \<le> c" and "c < cols b"
  shows "gravityInv b (gravityColumn (rows b) c st)"
proof -
  have "gravityInv b (st\<lparr>writeRow := rows b - 1\<rparr>)"
    using assms(1) by (simp add: gravityInv_def)
  then have "gravityInv b (fold (gravityCell c) (rev [0..rows b - 1]) (st\<lparr>writeRow := rows b - 1\<rparr>))"
    by (rule fold_invariant) (use assms(2,3) in \<open>auto simp: gravityCell_inv inBounds_def\<close>)
  then show ?thesis
    unfolding gravityColumn_def Let_def
    by (rule fold_invariant) (simp add: clearCell_inv)
qed

lemma applyGravity_boardInv:
  assumes "boardInv b"
  shows "boardInv (snd (applyGravity b))"
proof -
  let ?st0 = "\<lparr>gGrid = grid b, gSpecial = specialGrid b, movements = [], writeRow = rows b - 1\<rparr>"
  have "gravityInv b ?st0"
    using assms by (simp add: gravityInv_def boardInv_def allocated_def)
  then have "gravityInv b (fold (gravityColumn (rows b)) [0..cols b - 1] ?st0)"
    by (rule fold_invariant) (simp add: gravityColumn_inv)
  then show ?thesis
    by (simp add: applyGravity_def Let_def boardInv_def gravityInv_def allocated_def
        specialsNone_cong [of "b\<lparr>grid := g, specialGrid := s\<rparr>" b for g s])
qed

lemma refillCell_boardInv: "boardInv (snd st) \<Longrightarrow> boardInv (snd (refillCell rnd p st))"
  by (auto simp: refillCell_def Let_def boardInv_def allocated_def specialsNone_setAt
      specialsNone_cong [of "b\<lparr>grid := g, specialGrid := s\<rparr>" b for b g s])

lemma refillEmptyCells_boardInv:
  assumes "boardInv b"
  shows "boardInv (snd (refillEmptyCells rnd b))"
  unfolding refillEmptyCells_def
  by (rule fold_invariant [where P = "\<lambda>st. boardInv (snd st)"])
     (simp_all add: assms refillCell_boardInv)

lemma clearTile_boardInv: "boardInv (snd st) \<Longrightarrow> boardInv (snd (clearTile p st))"
  by (auto simp: clearTile_def Let_def boardInv_def allocated_def specialsNone_setAt
      specialsNone_cong [of "b\<lparr>grid := g, specialGrid := s\<rparr>" b for b g s])

lemma clearAllTiles_boardInv:
  assumes "boardInv b"
  shows "boardInv (snd (clearAllTiles b))"
  unfolding clearAllTiles_def
  by (rule fold_invariant [where P = "\<lambda>st. boardInv (snd st)"])
     (simp_all add: assms clearTile_boardInv)

lemma swapTiles_boardInv:
  assumes "boardInv b"
  shows "boardInv (swapTiles p q b)"
proof (cases "inBounds b (row p) (col p) \<and> inBounds b (row q) (col q)")
  case False
  then show ?thesis using assms by (auto simp: swapTiles_def)
next
  case True
  then have "getAt (specialGrid b) (row p) (col p) = Some SpecialNone"
    and "getAt (specialGrid b) (row q) (col q) = Some SpecialNone"
    using assms by (simp_all add: boardInv_def specialsNone_def)
  then show ?thesis
    using True assms
    by (simp add: swapTiles_def Let_def boardInv_def allocated_def specialsNone_setAt
        specialsNone_cong [of "b\<lparr>grid := g, specialGrid := s\<rparr>" b for g s])
qed

lemma createFromGroup_boardInv:
  assumes "boardInv b"
    and "mbBoard (snd (createFromGroup \<lparr>mbBoard = Some b, mbMinGroupSize = m\<rparr> grp cen)) = Some b'"
  shows "boardInv b'"
proof -
  let ?b1 = "removeGroup (filter (\<lambda>p. \<not> (row p = row cen \<and> col p = col cen)) grp) b"
  have 1: "boardInv ?b1" using assms(1) by (rule removeGroup_boardInv)
  then have 2: "boardInv (?b1\<lparr>grid := setAt (grid ?b1) (row cen) (col cen) (Tile MegaBomb)\<rparr>)"
    by (simp add: boardInv_def allocated_def
        specialsNone_cong [of "b\<lparr>grid := g\<rparr>" b for b g])
  have "b' = b \<or> b' = ?b1
        \<or> b' = ?b1\<lparr>grid := setAt (grid ?b1) (row cen) (col cen) (Tile MegaBomb)\<rparr>"
    using assms(2) by (auto simp: createFromGroup_def Let_def split: if_splits)
  then show ?thesis using assms(1) 1 2 by blast
qed

lemma explode_boardInv:
  assumes "boardInv b"
    and "mbBoard (snd (explode \<lparr>mbBoard = Some b, mbMinGroupSize = m\<rparr> r c)) = Some b'"
  shows "boardInv b'"
proof -
  have "b' = b \<or> (\<exists>grp. b' = removeGroup grp b)"
    using assms(2) by (auto simp: explode_def Let_def split: if_splits)
  then show ?thesis using assms(1) removeGroup_boardInv by blast
qed


lemma reachableBoard_boardInv: "reachableBoard b \<Longrightarrow> boardInv b"
proof (induction rule: reachableBoard.induct)
  case (filled rnd r c colors)
  show ?case by (rule randomFill_boardInv)
next
  case (randomFill b rnd)
  show ?case by (rule randomFill_boardInv)
next
  case (removeGroup b grp)
  then show ?case by (simp add: removeGroup_boardInv)
next
  case (applyGravity b)
  then show ?case by (simp add: applyGravity_boardInv)
next
  case (refillEmptyCells b rnd)
  then show ?case by (simp add: refillEmptyCells_boardInv)
next
  case (swapTiles b p q)
  then show ?case by (simp add: swapTiles_boardInv)
next
  case (clearAllTiles b)
  then show ?case by (simp add: clearAllTiles_boardInv)
next
  case (createFromGroup b m grp cen b')
  then show ?case using createFromGroup_boardInv by blast
next
  case (explode b m r c b')
  then show ?case using explode_boardInv by blast
qed

text \<open>
  C10. On every board reachable from \<open>randomFill()\<close> by \<open>removeGroup\<close>, \<open>applyGravity\<close>,
  \<open>refillEmptyCells\<close>, \<open>swapTiles\<close>, \<open>clearAllTiles\<close>, \<open>randomFill\<close> and
  MegaBombController's \<open>createFromGroup\<close> and \<open>explode\<close>, every entry of the special grid
  inside the bounds is \<open>TileSpecial.None\<close>, and \<open>BoardModel.isMegaBomb(row, col)\<close> is false
  for every cell.
\<close>

theorem specialGrid_always_None:
  assumes "reachableBoard b"
  shows "(\<forall>r c. inBounds b r c \<longrightarrow> getAt (specialGrid b) r c = Some SpecialNone)
       \<and> (\<forall>r c. \<not> isMegaBomb b r c)"
proof -
  have "boardInv b" using assms by (rule reachableBoard_boardInv)
  then have 1: "\<forall>r c. inBounds b r c \<longrightarrow> getAt (specialGrid b) r c = Some SpecialNone"
    by (simp add: boardInv_def specialsNone_def)
  then have "\<forall>r c. \<not> isMegaBomb b r c"
    by (simp add: isMegaBomb_def getSpecial_def)
  with 1 show ?thesis by simp
qed

lemma createFromGroup_keeps_board:
  "mbBoard ctrl = Some b \<Longrightarrow> mbBoard (snd (createFromGroup ctrl grp cen)) \<noteq> None"
  by (simp add: createFromGroup_def Let_def)

lemma boardRed_group:
  "findGroup boardRed 0 0
     = [TilePos 0 0, TilePos 0 1, TilePos 0 2, TilePos 1 2, TilePos 1 1, TilePos 1 0]"
  by (simp add: findGroup_def floodFill.simps inBounds_def boardRed_def randomFill_def
      newBoardModel_def pickColor_def TILE_COLORS_def upto.simps getAt_def)

text \<open>
  On \<open>boardBomb\<close> the mega bomb is marked in the colour grid only: the controller's
  \<open>isMegaBomb\<close> sees it, the board's \<open>isMegaBomb\<close> does not.
\<close>

theorem specialGrid_always_None_witness:
  "reachableBoard boardBomb
   \<and> getAt (grid boardBomb) 0 0 = Tile MegaBomb
   \<and> getAt (specialGrid boardBomb) 0 0 = Some SpecialNone
   \<and> \<not> isMegaBomb boardBomb 0 0
   \<and> MegaBombController_isMegaBomb \<lparr>mbBoard = Some boardBomb, mbMinGroupSize = 5\<rparr> 0 0 = Inr True"
proof -
  have "reachableBoard boardRed"
    unfolding boardRed_def by (rule reachableBoard.filled)
  moreover have "mbBoard (snd (createFromGroup \<lparr>mbBoard = Some boardRed, mbMinGroupSize = 5\<rparr>
                          (findGroup boardRed 0 0) (TilePos 0 0))) = Some boardBomb"
    unfolding boardBomb_def
    using createFromGroup_keeps_board [of "\<lparr>mbBoard = Some boardRed, mbMinGroupSize = 5\<rparr>" boardRed]
    by simp
  ultimately have r: "reachableBoard boardBomb"
    by (rule reachableBoard.createFromGroup)
  have inb: "inBounds boardBomb 0 0"
    by (simp add: boardBomb_def createFromGroup_def Let_def boardRed_group rowExists_def inBounds_def)
       (simp add: boardRed_def newBoardModel_def)
  have len: "length (grid boardRed) = 2"
    by (simp add: boardRed_def newBoardModel_def)
  have "length (grid (removeGroup xs boardRed)) = 2" for xs
    by (simp add: len)
  then have ne: "grid (removeGroup xs boardRed) \<noteq> []" for xs
    by (metis length_0_conv zero_neq_numeral)
  have ne': "grid boardRed \<noteq> []"
    using len by auto
  have g: "getAt (grid boardBomb) 0 0 = Tile MegaBomb"
    by (simp add: boardBomb_def createFromGroup_def Let_def boardRed_group rowExists_def
        getAt_setAt_same ne ne')
  have ex: "rowExists (grid boardBomb) 0"
    by (simp add: boardBomb_def createFromGroup_def Let_def boardRed_group rowExists_def ne ne')
  show ?thesis
    using specialGrid_always_None [OF r] r inb g ex
    by (simp add: MegaBombController_isMegaBomb_def)
qed

subsection \<open>findGroup\<close>

lemma connectedIn_mono: "connectedIn S a p \<Longrightarrow> S \<subseteq> T \<Longrightarrow> connectedIn T a p"
  by (induction rule: connectedIn.induct) (auto intro: connectedIn.intros)

lemma adjacent4_cases:
  "adjacent4 p q \<longleftrightarrow>
     q = TilePos (row p) (col p + 1) \<or> q = TilePos (row p) (col p - 1)
     \<or> q = TilePos (row p + 1) (col p) \<or> q = TilePos (row p - 1) (col p)"
  by (cases p; cases q) (auto simp: adjacent4_def)

text \<open>
  The invariant of the loop of \<open>findGroup\<close> started at \<open>s0\<close>: the visited cells are in the
  grid; the group is the visited cells of the start colour; every neighbour of a cell of the
  group is on the stack, visited, or outside the grid; the start cell is on the stack or
  visited; every cell of the group is connected to the start cell inside the group; and
  every cell on the stack is the start cell or a neighbour of a cell of the group.
\<close>

definition floodInv ::
  "BoardModel \<Rightarrow> TileColor \<Rightarrow> TilePos \<Rightarrow> TilePos list \<Rightarrow> TilePos set \<Rightarrow> TilePos list \<Rightarrow> bool"
where
  "floodInv b sc s0 stack visited grp =
     (inBounds b (row s0) (col s0)
      \<and> (\<forall>p \<in> visited. inBounds b (row p) (col p))
      \<and> set grp = {p \<in> visited. getAt (grid b) (row p) (col p) = Tile sc}
      \<and> (\<forall>p \<in> set grp. \<forall>q. adjacent4 p q \<longrightarrow>
            q \<in> set stack \<or> q \<in> visited \<or> \<not> inBounds b (row q) (col q))
      \<and> (s0 \<in> set stack \<or> s0 \<in> visited)
      \<and> (\<forall>p \<in> set grp. connectedIn (set grp) s0 p)
      \<and> (\<forall>q \<in> set stack. q = s0 \<or> (\<exists>p \<in> set grp. adjacent4 p q))
      \<and> distinct grp)"

lemma floodInv_skip_outside:
  assumes "floodInv b sc s0 (p # stack) visited grp" and "\<not> inBounds b (row p) (col p)"
  shows "floodInv b sc s0 stack visited grp"
  using assms unfolding floodInv_def by (auto; metis)

lemma floodInv_skip_visited:
  assumes "floodInv b sc s0 (p # stack) visited grp" and "p \<in> visited"
  shows "floodInv b sc s0 stack visited grp"
  using assms unfolding floodInv_def by (auto; metis)

lemma floodInv_other_colour:
  assumes "floodInv b sc s0 (p # stack) visited grp" and "inBounds b (row p) (col p)"
    and "p \<notin> visited" and "getAt (grid b) (row p) (col p) \<noteq> Tile sc"
  shows "floodInv b sc s0 stack (insert p visited) grp"
  using assms unfolding floodInv_def by (auto; metis)


lemma floodInv_same_colour:
  assumes inv: "floodInv b sc s0 (p # stack) visited grp" and inb: "inBounds b (row p) (col p)"
    and nv: "p \<notin> visited" and same: "getAt (grid b) (row p) (col p) = Tile sc"
  shows "floodInv b sc s0
           (TilePos (row p) (col p + 1) # TilePos (row p) (col p - 1)
            # TilePos (row p + 1) (col p) # TilePos (row p - 1) (col p) # stack)
           (insert p visited) (grp @ [p])"
proof -
  let ?stack = "TilePos (row p) (col p + 1) # TilePos (row p) (col p - 1)
            # TilePos (row p + 1) (col p) # TilePos (row p - 1) (col p) # stack"
  have s0: "inBounds b (row s0) (col s0)"
    and vis: "\<forall>p \<in> visited. inBounds b (row p) (col p)"
    and grp: "set grp = {p \<in> visited. getAt (grid b) (row p) (col p) = Tile sc}"
    and nbrs: "\<forall>p' \<in> set grp. \<forall>q. adjacent4 p' q \<longrightarrow>
            q \<in> set (p # stack) \<or> q \<in> visited \<or> \<not> inBounds b (row q) (col q)"
    and start: "s0 \<in> set (p # stack) \<or> s0 \<in> visited"
    and conn: "\<forall>p' \<in> set grp. connectedIn (set grp) s0 p'"
    and from_grp: "\<forall>q \<in> set (p # stack). q = s0 \<or> (\<exists>p' \<in> set grp. adjacent4 p' q)"
    and dist: "distinct grp"
    using inv unfolding floodInv_def by blast+
  have p_new: "p \<notin> set grp" using grp nv by simp
  have 1: "\<forall>q \<in> insert p visited. inBounds b (row q) (col q)"
    using vis inb by simp
  have 2: "set (grp @ [p]) = {q \<in> insert p visited. getAt (grid b) (row q) (col q) = Tile sc}"
    using grp same by auto
  have 3: "\<forall>p' \<in> set (grp @ [p]). \<forall>q. adjacent4 p' q \<longrightarrow>
            q \<in> set ?stack \<or> q \<in> insert p visited \<or> \<not> inBounds b (row q) (col q)"
  proof (intro ballI allI impI)
    fix p' q assume p': "p' \<in> set (grp @ [p])" and adj: "adjacent4 p' q"
    show "q \<in> set ?stack \<or> q \<in> insert p visited \<or> \<not> inBounds b (row q) (col q)"
    proof (cases "p' = p")
      case True
      then have "q \<in> set ?stack" using adj by (simp add: adjacent4_cases) blast
      then show ?thesis by simp
    next
      case False
      then have "p' \<in> set grp" using p' by simp
      then have "q \<in> set (p # stack) \<or> q \<in> visited \<or> \<not> inBounds b (row q) (col q)"
        using nbrs adj by blast
      then show ?thesis by auto
    qed
  qed
  have 4: "s0 \<in> set ?stack \<or> s0 \<in> insert p visited"
    using start by auto
  have p_conn: "connectedIn (set (grp @ [p])) s0 p"
  proof -
    have "p = s0 \<or> (\<exists>p' \<in> set grp. adjacent4 p' p)" using from_grp by simp
    then show ?thesis
    proof
      assume "p = s0"
      then show ?thesis by (simp add: connectedIn.start)
    next
      assume "\<exists>p' \<in> set grp. adjacent4 p' p"
      then obtain p' where p': "p' \<in> set grp" "adjacent4 p' p" by blast
      then have "connectedIn (set grp) s0 p'" using conn by blast
      then have "connectedIn (set (grp @ [p])) s0 p'"
        by (rule connectedIn_mono) auto
      moreover have "p \<in> set (grp @ [p])" by simp
      ultimately show ?thesis
        using p'(2) by (rule connectedIn.step)
    qed
  qed
  have 5: "\<forall>p' \<in> set (grp @ [p]). connectedIn (set (grp @ [p])) s0 p'"
  proof
    fix p' assume "p' \<in> set (grp @ [p])"
    then consider "p' = p" | "p' \<in> set grp" by auto
    then show "connectedIn (set (grp @ [p])) s0 p'"
    proof cases
      case 1
      then show ?thesis using p_conn by simp
    next
      case 2
      then have "connectedIn (set grp) s0 p'" using conn by blast
      then show ?thesis by (rule connectedIn_mono) auto
    qed
  qed
  have 6: "\<forall>q \<in> set ?stack. q = s0 \<or> (\<exists>p' \<in> set (grp @ [p]). adjacent4 p' q)"
  proof
    fix q assume "q \<in> set ?stack"
    then consider "adjacent4 p q" | "q \<in> set stack"
      by (auto simp: adjacent4_cases)
    then show "q = s0 \<or> (\<exists>p' \<in> set (grp @ [p]). adjacent4 p' q)"
    proof cases
      case 1
      then show ?thesis by auto
    next
      case 2
      then have "q = s0 \<or> (\<exists>p' \<in> set grp. adjacent4 p' q)" using from_grp by simp
      then show ?thesis by auto
    qed
  qed
  have 7: "distinct (grp @ [p])" using dist p_new by simp
  show ?thesis
    unfolding floodInv_def using s0 1 2 3 4 5 6 7 by blast
qed

lemma floodFill_inv:
  "floodInv b sc s0 stack visited grp
     \<Longrightarrow> \<exists>visited'. floodInv b sc s0 [] visited' (floodFill b sc stack visited grp)"
proof (induction b sc stack visited grp rule: floodFill.induct)
  case (1 b startColor visited grp)
  then show ?case by (auto simp: floodFill.simps)
next
  case (2 b startColor p stack visited grp)
  show ?case
  proof (cases "inBounds b (row p) (col p)")
    case False
    then show ?thesis
      using "2.IH"(1) "2.prems" by (simp add: floodInv_skip_outside floodFill.simps)
  next
    case inb: True
    show ?thesis
    proof (cases "p \<in> visited")
      case True
      then show ?thesis
        using inb "2.IH"(2) "2.prems" by (simp add: floodInv_skip_visited floodFill.simps)
    next
      case nv: False
      show ?thesis
      proof (cases "getAt (grid b) (row p) (col p) = Tile startColor")
        case False
        then show ?thesis
          using inb nv "2.IH"(3) "2.prems" by (simp add: floodInv_other_colour floodFill.simps)
      next
        case True
        then show ?thesis
          using inb nv "2.IH"(4) "2.prems" by (simp add: floodInv_same_colour floodFill.simps)
      qed
    qed
  qed
qed


lemma floodInv_final:
  assumes inv: "floodInv b sc s0 [] V G" and colour: "getAt (grid b) (row s0) (col s0) = Tile sc"
  shows "s0 \<in> set G" and "distinct G"
    and "\<And>p. p \<in> set G \<Longrightarrow> inBounds b (row p) (col p)"
    and "\<And>p. p \<in> set G \<Longrightarrow> getAt (grid b) (row p) (col p) = Tile sc"
    and "\<And>p. p \<in> set G \<Longrightarrow> connectedIn (set G) s0 p"
    and "\<And>p q. p \<in> set G \<Longrightarrow> adjacent4 p q \<Longrightarrow> inBounds b (row q) (col q)
            \<Longrightarrow> getAt (grid b) (row q) (col q) = Tile sc \<Longrightarrow> q \<in> set G"
proof -
  have vis: "\<forall>p \<in> V. inBounds b (row p) (col p)"
    using inv unfolding floodInv_def by (elim conjE)
  have grp: "set G = {p \<in> V. getAt (grid b) (row p) (col p) = Tile sc}"
    using inv unfolding floodInv_def by (elim conjE)
  have nbrs: "\<forall>p \<in> set G. \<forall>q. adjacent4 p q \<longrightarrow>
            q \<in> set [] \<or> q \<in> V \<or> \<not> inBounds b (row q) (col q)"
    using inv unfolding floodInv_def by (elim conjE)
  have start: "s0 \<in> set [] \<or> s0 \<in> V"
    using inv unfolding floodInv_def by (elim conjE)
  have conn: "\<forall>p \<in> set G. connectedIn (set G) s0 p"
    using inv unfolding floodInv_def by (elim conjE)
  show "distinct G"
    using inv unfolding floodInv_def by (elim conjE)
  show "s0 \<in> set G" using grp start colour by simp
  show "inBounds b (row p) (col p)" if "p \<in> set G" for p
    using that grp vis by simp
  show "getAt (grid b) (row p) (col p) = Tile sc" if "p \<in> set G" for p
    using that grp by simp
  show "connectedIn (set G) s0 p" if "p \<in> set G" for p
    using that conn by simp
  show "q \<in> set G" if "p \<in> set G" "adjacent4 p q" "inBounds b (row q) (col q)"
    "getAt (grid b) (row q) (col q) = Tile sc" for p q
  proof -
    have "q \<in> set [] \<or> q \<in> V \<or> \<not> inBounds b (row q) (col q)"
      using nbrs that(1,2) by blast
    then have "q \<in> V" using that(3) by simp
    then show ?thesis using grp that(4) by simp
  qed
qed

text \<open>
  C2. On an allocated board, \<open>findGroup(r, c)\<close> returns the empty list exactly when
  \<open>(r, c)\<close> is outside the grid or its cell holds no colour. Otherwise the returned cells,
  each listed once, contain \<open>(r, c)\<close>; each of them is in the grid, holds the colour of
  \<open>(r, c)\<close> and is connected to \<open>(r, c)\<close> by 4-adjacent steps inside the returned set; and
  every cell of the grid that is 4-adjacent to one of them and holds that colour is returned
  too. The search always ends (\<open>floodFill\<close> is a total function).
\<close>

theorem findGroup_spec:
  fixes b :: BoardModel
  assumes "allocated b"
  shows "(findGroup b r c = [] \<longleftrightarrow>
            \<not> inBounds b r c \<or> (\<forall>color. getAt (grid b) r c \<noteq> Tile color))
       \<and> (\<forall>color. inBounds b r c \<and> getAt (grid b) r c = Tile color \<longrightarrow>
             TilePos r c \<in> set (findGroup b r c)
           \<and> distinct (findGroup b r c)
           \<and> (\<forall>p \<in> set (findGroup b r c).
                 inBounds b (row p) (col p)
               \<and> getAt (grid b) (row p) (col p) = Tile color
               \<and> connectedIn (set (findGroup b r c)) (TilePos r c) p
               \<and> (\<forall>q. adjacent4 p q \<and> inBounds b (row q) (col q)
                        \<and> getAt (grid b) (row q) (col q) = Tile color
                      \<longrightarrow> q \<in> set (findGroup b r c))))"
proof (intro conjI allI impI)
  fix color assume h: "inBounds b r c \<and> getAt (grid b) r c = Tile color"
  let ?s0 = "TilePos r c"
  let ?G = "floodFill b color [?s0] {} []"
  have G: "findGroup b r c = ?G"
    using h by (simp add: findGroup_def)
  have "floodInv b color ?s0 [?s0] {} []"
    using h by (simp add: floodInv_def)
  then obtain V where inv: "floodInv b color ?s0 [] V ?G"
    using floodFill_inv by blast
  have colour: "getAt (grid b) (row ?s0) (col ?s0) = Tile color"
    using h by simp
  note fin = floodInv_final [OF inv colour]
  show "TilePos r c \<in> set (findGroup b r c)"
    unfolding G by (rule fin(1))
  show "distinct (findGroup b r c)"
    unfolding G by (rule fin(2))
  show "\<forall>p \<in> set (findGroup b r c).
                 inBounds b (row p) (col p)
               \<and> getAt (grid b) (row p) (col p) = Tile color
               \<and> connectedIn (set (findGroup b r c)) (TilePos r c) p
               \<and> (\<forall>q. adjacent4 p q \<and> inBounds b (row q) (col q)
                        \<and> getAt (grid b) (row q) (col q) = Tile color
                      \<longrightarrow> q \<in> set (findGroup b r c))"
    unfolding G
  proof (intro ballI conjI allI impI)
    fix p assume p: "p \<in> set ?G"
    show "inBounds b (row p) (col p)" using p by (rule fin(3))
    show "getAt (grid b) (row p) (col p) = Tile color" using p by (rule fin(4))
    show "connectedIn (set ?G) ?s0 p" using p by (rule fin(5))
    fix q assume "adjacent4 p q \<and> inBounds b (row q) (col q)
                        \<and> getAt (grid b) (row q) (col q) = Tile color"
    then show "q \<in> set ?G" using p fin(6) by blast
  qed
next
  show "findGroup b r c = [] \<longleftrightarrow>
          \<not> inBounds b r c \<or> (\<forall>color. getAt (grid b) r c \<noteq> Tile color)"
  proof (cases "inBounds b r c \<and> (\<exists>color. getAt (grid b) r c = Tile color)")
    case True
    then obtain color where h: "inBounds b r c" "getAt (grid b) r c = Tile color" by blast
    let ?s0 = "TilePos r c"
    have "floodInv b color ?s0 [?s0] {} []"
      using h by (simp add: floodInv_def)
    then obtain V where inv: "floodInv b color ?s0 [] V (floodFill b color [?s0] {} [])"
      using floodFill_inv by blast
    have "?s0 \<in> set (floodFill b color [?s0] {} [])"
      using floodInv_final(1) [OF inv] h by simp
    then have "findGroup b r c \<noteq> []"
      using h by (auto simp: findGroup_def)
    then show ?thesis using True by blast
  next
    case False
    then have "findGroup b r c = []"
      by (auto simp: findGroup_def split: Cell.splits)
    then show ?thesis using False by blast
  qed
qed

text \<open>
  On \<open>board3\<close> the group of \<open>(0, 0)\<close> is the five red cells; on \<open>board2\<close> the empty cell
  \<open>(0, 1)\<close> and the position \<open>(2, 0)\<close> outside the grid give the empty list.
\<close>

theorem findGroup_spec_witness:
  "allocated board3
   \<and> inBounds board3 0 0 \<and> getAt (grid board3) 0 0 = Tile Red
   \<and> findGroup board3 0 0 = [TilePos 0 0, TilePos 0 1, TilePos 1 1, TilePos 1 2, TilePos 1 0]
   \<and> connectedIn (set (findGroup board3 0 0)) (TilePos 0 0) (TilePos 1 2)
   \<and> allocated board2 \<and> getAt (grid board2) 0 1 = Null \<and> findGroup board2 0 1 = []
   \<and> \<not> inBounds board2 2 0 \<and> findGroup board2 2 0 = []"
proof -
  have 1: "allocated board3" "inBounds board3 0 0" "getAt (grid board3) 0 0 = Tile Red"
    by (simp_all add: allocated_def inBounds_def board3_def boardOf_def getAt_def rowOf_def)
  have 2: "findGroup board3 0 0 = [TilePos 0 0, TilePos 0 1, TilePos 1 1, TilePos 1 2, TilePos 1 0]"
    by (simp add: findGroup_def floodFill.simps inBounds_def board3_def boardOf_def getAt_def
        rowOf_def)
  have 3: "allocated board2" "getAt (grid board2) 0 1 = Null" "\<not> inBounds board2 2 0"
    by (simp_all add: allocated_def inBounds_def board2_def boardOf_def getAt_def rowOf_def)
  have "\<forall>p \<in> set (findGroup board3 0 0).
          connectedIn (set (findGroup board3 0 0)) (TilePos 0 0) p"
    using findGroup_spec [OF 1(1), of 0 0] 1(2,3) by blast
  moreover have "TilePos 1 2 \<in> set (findGroup board3 0 0)" by (simp add: 2)
  ultimately have 4: "connectedIn (set (findGroup board3 0 0)) (TilePos 0 0) (TilePos 1 2)"
    by blast
  have 5: "findGroup board2 0 1 = []"
    using findGroup_spec [OF 3(1), of 0 1] 3(2) by simp
  have 6: "findGroup board2 2 0 = []"
    using findGroup_spec [OF 3(1), of 2 0] 3(3) by simp
  show ?thesis
    using 1 2 3 4 5 6 by simp
qed

subsection \<open>applyGravity\<close>

lemma upto_nat: "[0..int n - 1] = map int [0..<n]"
proof (induction n)
  case 0
  show ?case by simp
next
  case (Suc n)
  have "[0..int (Suc n) - 1] = [0..int n - 1] @ [int n]"
    using upto_rec2 [of 0 "int n"] by simp
  then show ?case using Suc by simp
qed

lemma upto_of_int: "[0..n - 1] = map int [0..<nat n]"
proof (cases "0 \<le> n")
  case True
  then show ?thesis using upto_nat [of "nat n"] by simp
next
  case False
  then show ?thesis by simp
qed

lemma setAt_same_value: "getAt g r c = v \<Longrightarrow> setAt g r c v = g"
  by (cases "nat r < length g") (auto simp: getAt_def setAt_def list_update_beyond)

lemma replayMoves_append [simp]: "replayMoves (ms @ ms') g = replayMoves ms' (replayMoves ms g)"
  by (simp add: replayMoves_def)

lemma replayMoves_Nil [simp]: "replayMoves [] g = g"
  by (simp add: replayMoves_def)

lemma replayMoves_single [simp]: "replayMoves [m] g = replayMove m g"
  by (simp add: replayMoves_def)

text \<open>The rows from \<open>n\<close> to \<open>N - 1\<close> that hold a tile in column \<open>c\<close>, from top to bottom.\<close>

definition occupiedRows :: "TileGrid \<Rightarrow> int \<Rightarrow> nat \<Rightarrow> nat \<Rightarrow> nat list" where
  "occupiedRows g c n N = filter (\<lambda>r. getAt g (int r) c \<noteq> Null) [n..<N]"

lemma occupiedRows_Suc:
  "n < N \<Longrightarrow> occupiedRows g c n N =
     (if getAt g (int n) c \<noteq> Null then n # occupiedRows g c (Suc n) N
      else occupiedRows g c (Suc n) N)"
  by (simp add: occupiedRows_def upt_conv_Cons)

lemma occupiedRows_top [simp]: "occupiedRows g c N N = []"
  by (simp add: occupiedRows_def)

lemma length_occupiedRows: "length (occupiedRows g c n N) \<le> N - n"
proof -
  have "length (occupiedRows g c n N) \<le> length [n..<N]"
    unfolding occupiedRows_def by (rule length_filter_le)
  then show ?thesis by simp
qed

text \<open>
  The invariant of the first loop of a column after the rows \<open>n\<close> to \<open>N - 1\<close> were
  visited (the rows above \<open>n\<close> remain to be visited): with \<open>k\<close> tiles found
  there, \<open>writeRow\<close> is \<open>N - 1 - k\<close>; the rows above \<open>n\<close> are as at the start; the rows from
  \<open>n\<close> to \<open>writeRow\<close> are empty; the \<open>k\<close> rows below \<open>writeRow\<close> hold the tiles found, in
  their order; and the other columns are as at the start.
\<close>

definition scanInv :: "TileGrid \<Rightarrow> int \<Rightarrow> nat \<Rightarrow> nat \<Rightarrow> GravityState \<Rightarrow> bool" where
  "scanInv g0 c N n st =
     (let k = length (occupiedRows g0 c n N) in
        length (gGrid st) = N
      \<and> writeRow st = int N - 1 - int k
      \<and> (\<forall>r < n. getAt (gGrid st) (int r) c = getAt g0 (int r) c)
      \<and> (\<forall>r. n \<le> r \<and> r + k < N \<longrightarrow> getAt (gGrid st) (int r) c = Null)
      \<and> map (\<lambda>r. getAt (gGrid st) (int r) c) [N - k..<N]
          = map (\<lambda>r. getAt g0 (int r) c) (occupiedRows g0 c n N)
      \<and> (\<forall>r c'. c' \<noteq> c \<longrightarrow> getAt (gGrid st) (int r) c' = getAt g0 (int r) c'))"

lemma scanInv_start:
  "length (gGrid st) = N \<Longrightarrow> scanInv (gGrid st) c N N (st\<lparr>writeRow := int N - 1\<rparr>)"
  by (auto simp: scanInv_def)


lemma getAt_setAt_nat:
  "r < length g \<Longrightarrow>
     getAt (setAt g (int r) c v) (int r') c' = (if r' = r \<and> c' = c then v else getAt g (int r') c')"
  by (auto simp: getAt_def setAt_def nth_list_update)

lemma scanInv_step:
  assumes inv: "scanInv g0 c N (Suc n) st" and n: "n < N"
  shows "scanInv g0 c N n (gravityCell c (int n) st)"
proof -
  define k where "k = length (occupiedRows g0 c (Suc n) N)"
  define w where "w = N - 1 - k"
  define g where "g = gGrid st"
  define v where "v = getAt g0 (int n) c"
  have k_le: "k \<le> N - Suc n"
    unfolding k_def by (rule length_occupiedRows)
  then have w_ge: "n \<le> w" and w_lt: "w < N" and w_k: "w + k + 1 = N"
    using n by (simp_all add: w_def)
  have len: "length g = N"
    and wr: "writeRow st = int w"
    and below: "\<And>r. r < Suc n \<Longrightarrow> getAt g (int r) c = getAt g0 (int r) c"
    and gap: "\<And>r. Suc n \<le> r \<Longrightarrow> r + k < N \<Longrightarrow> getAt g (int r) c = Null"
    and placed: "map (\<lambda>r. getAt g (int r) c) [N - k..<N]
                   = map (\<lambda>r. getAt g0 (int r) c) (occupiedRows g0 c (Suc n) N)"
    and others: "\<And>r c'. c' \<noteq> c \<Longrightarrow> getAt g (int r) c' = getAt g0 (int r) c'"
    using inv w_k unfolding scanInv_def Let_def k_def [symmetric] g_def [symmetric]
    by (auto simp: w_def)
  have cur: "getAt g (int n) c = v"
    unfolding v_def by (rule below) simp
  show ?thesis
  proof (cases "v = Null")
    case True
    then have occ: "occupiedRows g0 c n N = occupiedRows g0 c (Suc n) N"
      using n by (simp add: occupiedRows_Suc v_def)
    have st': "gravityCell c (int n) st = st"
      using True cur by (simp add: gravityCell_def g_def)
    have "getAt g (int r) c = Null" if "n \<le> r" "r + k < N" for r
    proof (cases "r = n")
      case True
      then show ?thesis using cur \<open>v = Null\<close> by simp
    next
      case False
      then show ?thesis using that gap by simp
    qed
    then show ?thesis
      unfolding scanInv_def Let_def st' occ k_def [symmetric] g_def [symmetric]
      using len wr w_k below placed others by (auto simp: w_def)
  next
    case False
    then have occ: "occupiedRows g0 c n N = n # occupiedRows g0 c (Suc n) N"
      using n by (simp add: occupiedRows_Suc v_def)
    have k': "length (occupiedRows g0 c n N) = Suc k"
      by (simp add: occ k_def)
    have range: "[N - Suc k..<N] = w # [N - k..<N]"
    proof -
      have "N - Suc k = w" "Suc w = N - k" using w_k by simp_all
      then show ?thesis using w_lt by (simp add: upt_conv_Cons)
    qed
    show ?thesis
    proof (cases "w = n")
      case True
      have st': "gravityCell c (int n) st = st\<lparr>writeRow := int w - 1\<rparr>"
        using False cur wr True by (simp add: gravityCell_def g_def)
      have "map (\<lambda>r. getAt g (int r) c) [N - Suc k..<N]
              = map (\<lambda>r. getAt g0 (int r) c) (occupiedRows g0 c n N)"
        unfolding range occ using placed cur True by (simp add: v_def)
      moreover have "getAt g (int r) c = Null" if "n \<le> r" "r + Suc k < N" for r
        using that w_k True by simp
      ultimately show ?thesis
        unfolding scanInv_def Let_def st' k' using len w_k below others
        by (auto simp: g_def)
    next
      case neq: False
      then have n_lt_w: "n < w" using w_ge by simp
      define g' where "g' = setAt (setAt g (int w) c v) (int n) c Null"
      have st': "gGrid (gravityCell c (int n) st) = g'"
        "writeRow (gravityCell c (int n) st) = int w - 1"
        using False cur wr neq by (simp_all add: gravityCell_def g_def g'_def Let_def)
      have get: "getAt g' (int r) c' =
                   (if r = n \<and> c' = c then Null
                    else if r = w \<and> c' = c then v else getAt g (int r) c')" for r c'
        unfolding g'_def using len n w_lt by (simp add: getAt_setAt_nat)
      have 1: "length g' = N" by (simp add: g'_def len)
      have 2: "getAt g' (int r) c = getAt g0 (int r) c" if "r < n" for r
        using that n_lt_w below by (simp add: get)
      have 3: "getAt g' (int r) c = Null" if "n \<le> r" "r + Suc k < N" for r
      proof (cases "r = n")
        case True
        then show ?thesis by (simp add: get)
      next
        case False
        then have "Suc n \<le> r" "r \<noteq> w" "r + k < N" using that w_k by simp_all
        then show ?thesis using gap False by (simp add: get)
      qed
      have Nk: "N - k = Suc w" using w_k by simp
      have "map (\<lambda>r. getAt g' (int r) c) [N - k..<N] = map (\<lambda>r. getAt g (int r) c) [N - k..<N]"
        unfolding Nk using n_lt_w by (intro map_cong refl) (simp add: get)
      then have 4: "map (\<lambda>r. getAt g' (int r) c) [N - Suc k..<N]
              = map (\<lambda>r. getAt g0 (int r) c) (occupiedRows g0 c n N)"
        unfolding range occ using placed neq by (simp add: get v_def)
      have 5: "getAt g' (int r) c' = getAt g0 (int r) c'" if "c' \<noteq> c" for r c'
        using that others by (simp add: get)
      show ?thesis
        unfolding scanInv_def Let_def st' k' using 1 2 3 4 5 w_k
        by auto
    qed
  qed
qed


lemma scanInv_facts:
  assumes "scanInv g0 c N (Suc n) st" and "n < N"
  obtains w where "writeRow st = int w" "n \<le> w" "w < N" "length (gGrid st) = N"
    "getAt (gGrid st) (int n) c = getAt g0 (int n) c"
proof -
  define k where "k = length (occupiedRows g0 c (Suc n) N)"
  have "k \<le> N - Suc n" unfolding k_def by (rule length_occupiedRows)
  then have "n \<le> N - 1 - k" "N - 1 - k < N" "int (N - 1 - k) = int N - 1 - int k"
    using assms(2) by simp_all
  moreover have "writeRow st = int N - 1 - int k" "length (gGrid st) = N"
    "getAt (gGrid st) (int n) c = getAt g0 (int n) c"
    using assms(1) unfolding scanInv_def Let_def k_def by simp_all
  ultimately show ?thesis using that [of "N - 1 - k"] by simp
qed

text \<open>
  What holds of a reported movement: it goes down inside one column of the grid, and its
  colour is the tile found at \<open>from\<close>.
\<close>

definition moveOk :: "TileGrid \<Rightarrow> nat \<Rightarrow> GravityMovement \<Rightarrow> bool" where
  "moveOk g0 N m =
     (col (mvFrom m) = col (mvTo m) \<and> 0 \<le> row (mvFrom m) \<and> row (mvFrom m) < row (mvTo m)
      \<and> row (mvTo m) < int N
      \<and> mvColor m = getAt g0 (row (mvFrom m)) (col (mvFrom m)) \<and> mvColor m \<noteq> Null)"

text \<open>
  The movements pushed during a column, \<open>ms\<close>, replayed on the grid at the column's start
  give the current grid, and each has its tile at \<open>to\<close>, below \<open>writeRow\<close>.
\<close>

definition movesInv ::
  "TileGrid \<Rightarrow> int \<Rightarrow> nat \<Rightarrow> GravityMovement list \<Rightarrow> GravityState \<Rightarrow> bool"
where
  "movesInv g0 c N mv0 st =
     (\<exists>ms. movements st = mv0 @ ms \<and> gGrid st = replayMoves ms g0
        \<and> (\<forall>m \<in> set ms. moveOk g0 N m \<and> col (mvTo m) = c \<and> writeRow st < row (mvTo m)
               \<and> getAt (gGrid st) (row (mvTo m)) c = mvColor m))"

lemma movesInv_start: "movesInv (gGrid st) c N (movements st) (st\<lparr>writeRow := w\<rparr>)"
  by (simp add: movesInv_def)

lemma movesInv_step:
  assumes inv: "scanInv g0 c N (Suc n) st" and mv: "movesInv g0 c N mv0 st" and n: "n < N"
  shows "movesInv g0 c N mv0 (gravityCell c (int n) st)"
proof -
  obtain w where w: "writeRow st = int w" "n \<le> w" "w < N" and len: "length (gGrid st) = N"
    and cur: "getAt (gGrid st) (int n) c = getAt g0 (int n) c"
    using inv n by (rule scanInv_facts)
  obtain ms where ms: "movements st = mv0 @ ms" "gGrid st = replayMoves ms g0"
    and ok: "\<And>m. m \<in> set ms \<Longrightarrow> moveOk g0 N m \<and> col (mvTo m) = c \<and> int w < row (mvTo m)
               \<and> getAt (gGrid st) (row (mvTo m)) c = mvColor m"
    using mv w(1) unfolding movesInv_def by auto
  define v where "v = getAt g0 (int n) c"
  show ?thesis
  proof (cases "v = Null")
    case True
    then have "gravityCell c (int n) st = st"
      using cur by (simp add: gravityCell_def v_def)
    then show ?thesis using mv by simp
  next
    case False
    show ?thesis
    proof (cases "w = n")
      case True
      have st': "gravityCell c (int n) st = st\<lparr>writeRow := int w - 1\<rparr>"
        using False cur w(1) True by (simp add: gravityCell_def v_def)
      show ?thesis
        unfolding movesInv_def st'
        by (rule exI [of _ ms]) (use ms ok in force)
    next
      case neq: False
      then have n_lt_w: "n < w" using w(2) by simp
      define m where "m = GravityMovement (TilePos (int n) c) (TilePos (int w) c) v"
      define g' where "g' = setAt (setAt (gGrid st) (int w) c v) (int n) c Null"
      have st': "gGrid (gravityCell c (int n) st) = g'"
        "writeRow (gravityCell c (int n) st) = int w - 1"
        "movements (gravityCell c (int n) st) = mv0 @ ms @ [m]"
        using False cur w(1) neq ms(1)
        by (simp_all add: gravityCell_def v_def g'_def m_def Let_def)
      have get: "getAt g' (int r) c' =
                   (if r = n \<and> c' = c then Null
                    else if r = w \<and> c' = c then v else getAt (gGrid st) (int r) c')" for r c'
        unfolding g'_def using len n w(3) by (simp add: getAt_setAt_nat)
      have replay: "g' = replayMoves (ms @ [m]) g0"
        by (simp add: ms(2) replayMove_def m_def g'_def)
      have old: "moveOk g0 N m' \<and> col (mvTo m') = c \<and> int w - 1 < row (mvTo m')
                   \<and> getAt g' (row (mvTo m')) c = mvColor m'" if "m' \<in> set ms" for m'
      proof -
        have h: "moveOk g0 N m'" "col (mvTo m') = c" "int w < row (mvTo m')"
          "getAt (gGrid st) (row (mvTo m')) c = mvColor m'"
          using ok [OF that] by simp_all
        define r where "r = nat (row (mvTo m'))"
        have r: "row (mvTo m') = int r" "w < r" using h(3) by (simp_all add: r_def)
        have "getAt g' (int r) c = getAt (gGrid st) (int r) c"
          using r(2) n_lt_w by (simp add: get)
        then show ?thesis using h r by simp
      qed
      have new: "moveOk g0 N m \<and> col (mvTo m) = c \<and> int w - 1 < row (mvTo m)
                   \<and> getAt g' (row (mvTo m)) c = mvColor m"
        using False n_lt_w w(3) neq by (simp add: moveOk_def m_def v_def get)
      show ?thesis
        unfolding movesInv_def st'
        by (rule exI [of _ "ms @ [m]"]) (use replay old new in auto)
    qed
  qed
qed

text \<open>The scan of one column, as a function of the number of rows still to visit.\<close>

lemma rev_upto_Suc: "rev [0..int (Suc n) - 1] = int n # rev [0..int n - 1]"
  by (simp only: upto_nat) simp

lemma scan_invs:
  assumes "scanInv g0 c N n st" and "movesInv g0 c N mv0 st" and "n \<le> N"
  shows "scanInv g0 c N 0 (fold (gravityCell c) (rev [0..int n - 1]) st)
       \<and> movesInv g0 c N mv0 (fold (gravityCell c) (rev [0..int n - 1]) st)"
  using assms
proof (induction n arbitrary: st)
  case 0
  then show ?case by simp
next
  case (Suc n)
  have "scanInv g0 c N n (gravityCell c (int n) st)"
    using Suc.prems by (intro scanInv_step) simp_all
  moreover have "movesInv g0 c N mv0 (gravityCell c (int n) st)"
    using Suc.prems by (intro movesInv_step) simp_all
  ultimately show ?case
    using Suc.IH [of "gravityCell c (int n) st"] Suc.prems(3)
    by (simp only: rev_upto_Suc fold.simps o_apply)
qed


text \<open>The second loop of a column writes \<open>null\<close> over cells that are already empty.\<close>

lemma clear_loop:
  assumes "scanInv g0 c N 0 st"
  shows "gGrid (fold (clearCell c) (rev [0..writeRow st]) st) = gGrid st
       \<and> movements (fold (clearCell c) (rev [0..writeRow st]) st) = movements st"
proof -
  define k where "k = length (occupiedRows g0 c 0 N)"
  have wr: "writeRow st = int N - 1 - int k"
    and gap: "\<And>r. r + k < N \<Longrightarrow> getAt (gGrid st) (int r) c = Null"
    using assms unfolding scanInv_def Let_def k_def by auto
  let ?P = "\<lambda>st'. gGrid st' = gGrid st \<and> movements st' = movements st"
  show ?thesis
  proof (rule fold_invariant [where P = ?P])
    show "?P st" by simp
  next
    fix r and st' :: GravityState
    assume r: "r \<in> set (rev [0..writeRow st])" and P: "?P st'"
    define r' where "r' = nat r"
    have "r = int r'" "r' + k < N" using r wr by (auto simp: r'_def)
    then have "getAt (gGrid st') r c = Null" using gap P by simp
    then show "?P (clearCell c r st')"
      using P by (simp add: clearCell_def setAt_same_value)
  qed
qed

lemma map_all_const: "(\<And>x. x \<in> set xs \<Longrightarrow> f x = v) \<Longrightarrow> map f xs = replicate (length xs) v"
  by (induction xs) auto

lemma gravityColumn_result:
  fixes st :: GravityState and nrows c :: int
  assumes len: "length (gGrid st) = nat nrows"
  defines "N \<equiv> nat nrows"
  defines "st' \<equiv> gravityColumn nrows c st"
  defines "occ \<equiv> occupiedRows (gGrid st) c 0 N"
  shows "length (gGrid st') = N"
    and "map (\<lambda>r. getAt (gGrid st') (int r) c) [0..<N]
           = replicate (N - length occ) Null @ map (\<lambda>r. getAt (gGrid st) (int r) c) occ"
    and "\<And>r c'. c' \<noteq> c \<Longrightarrow> getAt (gGrid st') (int r) c' = getAt (gGrid st) (int r) c'"
    and "\<exists>ms. movements st' = movements st @ ms \<and> gGrid st' = replayMoves ms (gGrid st)
           \<and> (\<forall>m \<in> set ms. moveOk (gGrid st) N m \<and> col (mvTo m) = c
                  \<and> getAt (gGrid st') (row (mvTo m)) c = mvColor m)"
proof -
  define st0 where "st0 = st\<lparr>writeRow := nrows - 1\<rparr>"
  define st1 where "st1 = fold (gravityCell c) (rev [0..nrows - 1]) st0"
  have st': "st' = fold (clearCell c) (rev [0..writeRow st1]) st1"
    by (simp add: st'_def gravityColumn_def Let_def st1_def st0_def)
  have "length (gGrid st') = N
      \<and> map (\<lambda>r. getAt (gGrid st') (int r) c) [0..<N]
           = replicate (N - length occ) Null @ map (\<lambda>r. getAt (gGrid st) (int r) c) occ
      \<and> (\<forall>r c'. c' \<noteq> c \<longrightarrow> getAt (gGrid st') (int r) c' = getAt (gGrid st) (int r) c')
      \<and> (\<exists>ms. movements st' = movements st @ ms \<and> gGrid st' = replayMoves ms (gGrid st)
           \<and> (\<forall>m \<in> set ms. moveOk (gGrid st) N m \<and> col (mvTo m) = c
                  \<and> getAt (gGrid st') (row (mvTo m)) c = mvColor m))"
  proof (cases "0 \<le> nrows")
    case False
    then have "N = 0" "st1 = st0" by (simp_all add: N_def st1_def)
    moreover from this have "st' = st0" using False by (simp add: st' st0_def)
    ultimately show ?thesis
      using len False by (simp add: st0_def occ_def)
  next
    case True
    then have nrows: "nrows = int N" by (simp add: N_def)
    have "scanInv (gGrid st) c N N st0"
      unfolding st0_def nrows using len by (intro scanInv_start) (simp add: N_def)
    moreover have "movesInv (gGrid st) c N (movements st) st0"
      unfolding st0_def by (rule movesInv_start)
    ultimately have invs:
      "scanInv (gGrid st) c N 0 st1 \<and> movesInv (gGrid st) c N (movements st) st1"
      unfolding st1_def nrows by (intro scan_invs) simp_all
    have same: "gGrid st' = gGrid st1" "movements st' = movements st1"
      using clear_loop [of "gGrid st" c N st1] invs unfolding st' by simp_all
    have k: "length occ \<le> N"
      using length_occupiedRows [of "gGrid st" c 0 N] by (simp add: occ_def)
    have len1: "length (gGrid st1) = N"
      and gap: "\<And>r. r + length occ < N \<Longrightarrow> getAt (gGrid st1) (int r) c = Null"
      and placed: "map (\<lambda>r. getAt (gGrid st1) (int r) c) [N - length occ..<N]
                     = map (\<lambda>r. getAt (gGrid st) (int r) c) occ"
      and others: "\<And>r c'. c' \<noteq> c \<Longrightarrow> getAt (gGrid st1) (int r) c' = getAt (gGrid st) (int r) c'"
      using invs unfolding scanInv_def Let_def occ_def by auto
    have 1: "length (gGrid st') = N" using len1 same by simp
    have 3: "\<forall>r c'. c' \<noteq> c \<longrightarrow> getAt (gGrid st') (int r) c' = getAt (gGrid st) (int r) c'"
      using others same by simp
    have 2: "map (\<lambda>r. getAt (gGrid st') (int r) c) [0..<N]
             = replicate (N - length occ) Null @ map (\<lambda>r. getAt (gGrid st) (int r) c) occ"
    proof -
      have "[0..<N] = [0..<N - length occ] @ [N - length occ..<N]"
        using k by (metis le_add_diff_inverse2 upt_add_eq_append zero_le)
      moreover have "map (\<lambda>r. getAt (gGrid st1) (int r) c) [0..<N - length occ]
                       = replicate (N - length occ) Null"
        using gap map_all_const [of "[0..<N - length occ]" "\<lambda>r. getAt (gGrid st1) (int r) c" Null]
        by (simp add: less_diff_conv)
      ultimately show ?thesis
        using placed same by (metis map_append)
    qed
    have 4: "\<exists>ms. movements st' = movements st @ ms \<and> gGrid st' = replayMoves ms (gGrid st)
             \<and> (\<forall>m \<in> set ms. moveOk (gGrid st) N m \<and> col (mvTo m) = c
                    \<and> getAt (gGrid st') (row (mvTo m)) c = mvColor m)"
      using invs same unfolding movesInv_def by auto
    show ?thesis using 1 2 3 4 by blast
  qed
  then show "length (gGrid st') = N"
    and "map (\<lambda>r. getAt (gGrid st') (int r) c) [0..<N]
           = replicate (N - length occ) Null @ map (\<lambda>r. getAt (gGrid st) (int r) c) occ"
    and "\<And>r c'. c' \<noteq> c \<Longrightarrow> getAt (gGrid st') (int r) c' = getAt (gGrid st) (int r) c'"
    and "\<exists>ms. movements st' = movements st @ ms \<and> gGrid st' = replayMoves ms (gGrid st)
           \<and> (\<forall>m \<in> set ms. moveOk (gGrid st) N m \<and> col (mvTo m) = c
                  \<and> getAt (gGrid st') (row (mvTo m)) c = mvColor m)"
    by blast+
qed

text \<open>
  The invariant of the loop over the columns after the columns below \<open>j\<close>: each of them is
  compacted, the others are as at the start, and the movements pushed so far replay the
  start grid into the current one.
\<close>

definition outerInv :: "TileGrid \<Rightarrow> nat \<Rightarrow> nat \<Rightarrow> GravityState \<Rightarrow> bool" where
  "outerInv g0 N j st =
     (length (gGrid st) = N
      \<and> (\<forall>c < j. map (\<lambda>r. getAt (gGrid st) (int r) (int c)) [0..<N]
                    = replicate (N - length (occupiedRows g0 (int c) 0 N)) Null
                      @ map (\<lambda>r. getAt g0 (int r) (int c)) (occupiedRows g0 (int c) 0 N))
      \<and> (\<forall>c' r. \<not> (0 \<le> c' \<and> c' < int j) \<longrightarrow> getAt (gGrid st) (int r) c' = getAt g0 (int r) c')
      \<and> gGrid st = replayMoves (movements st) g0
      \<and> (\<forall>m \<in> set (movements st). moveOk g0 N m \<and> 0 \<le> col (mvTo m) \<and> col (mvTo m) < int j
             \<and> getAt (gGrid st) (row (mvTo m)) (col (mvTo m)) = mvColor m))"

lemma occupiedRows_cong:
  "(\<And>r. getAt g (int r) c = getAt g' (int r) c) \<Longrightarrow> occupiedRows g c n N = occupiedRows g' c n N"
  by (simp add: occupiedRows_def)

lemma outer_step:
  fixes st :: GravityState
  assumes inv: "outerInv g0 (nat nrows) j st"
  shows "outerInv g0 (nat nrows) (Suc j) (gravityColumn nrows (int j) st)"
proof -
  define N where "N = nat nrows"
  define st' where "st' = gravityColumn nrows (int j) st"
  have len: "length (gGrid st) = nat nrows"
    and compacted: "\<And>c. c < j \<Longrightarrow> map (\<lambda>r. getAt (gGrid st) (int r) (int c)) [0..<N]
                    = replicate (N - length (occupiedRows g0 (int c) 0 N)) Null
                      @ map (\<lambda>r. getAt g0 (int r) (int c)) (occupiedRows g0 (int c) 0 N)"
    and todo: "\<And>c' r. \<not> (0 \<le> c' \<and> c' < int j) \<Longrightarrow> getAt (gGrid st) (int r) c' = getAt g0 (int r) c'"
    and replay: "gGrid st = replayMoves (movements st) g0"
    and moves: "\<And>m. m \<in> set (movements st) \<Longrightarrow> moveOk g0 N m \<and> 0 \<le> col (mvTo m)
             \<and> col (mvTo m) < int j
             \<and> getAt (gGrid st) (row (mvTo m)) (col (mvTo m)) = mvColor m"
    using inv unfolding outerInv_def N_def by auto
  note res = gravityColumn_result [OF len, where c = "int j", folded N_def st'_def]
  have other: "getAt (gGrid st') (int r) c' = getAt (gGrid st) (int r) c'" if "c' \<noteq> int j" for r c'
    using that by (rule res(3))
  have colj: "getAt (gGrid st) (int r) (int j) = getAt g0 (int r) (int j)" for r
    by (rule todo) simp
  have occ: "occupiedRows (gGrid st) (int j) 0 N = occupiedRows g0 (int j) 0 N"
    by (rule occupiedRows_cong) (rule colj)
  obtain ms where ms: "movements st' = movements st @ ms" "gGrid st' = replayMoves ms (gGrid st)"
    and ms_ok: "\<And>m. m \<in> set ms \<Longrightarrow> moveOk (gGrid st) N m \<and> col (mvTo m) = int j
                  \<and> getAt (gGrid st') (row (mvTo m)) (int j) = mvColor m"
    using res(4) by blast
  have 1: "length (gGrid st') = N" by (rule res(1))
  have 2: "map (\<lambda>r. getAt (gGrid st') (int r) (int c)) [0..<N]
                    = replicate (N - length (occupiedRows g0 (int c) 0 N)) Null
                      @ map (\<lambda>r. getAt g0 (int r) (int c)) (occupiedRows g0 (int c) 0 N)"
    if "c < Suc j" for c
  proof (cases "c = j")
    case True
    show ?thesis
      using res(2) unfolding True occ by (simp add: colj)
  next
    case False
    then have "c < j" "int c \<noteq> int j" using that by simp_all
    then show ?thesis using other [of "int c"] compacted [of c] by simp
  qed
  have 3: "getAt (gGrid st') (int r) c' = getAt g0 (int r) c'"
    if "\<not> (0 \<le> c' \<and> c' < int (Suc j))" for c' r
  proof -
    have "c' \<noteq> int j" "\<not> (0 \<le> c' \<and> c' < int j)" using that by auto
    then show ?thesis using other [of c'] todo [of c'] by simp
  qed
  have 4: "gGrid st' = replayMoves (movements st') g0"
    by (simp add: ms replay)
  have 5: "moveOk g0 N m \<and> 0 \<le> col (mvTo m) \<and> col (mvTo m) < int (Suc j)
             \<and> getAt (gGrid st') (row (mvTo m)) (col (mvTo m)) = mvColor m"
    if mem: "m \<in> set (movements st')" for m
  proof -
    consider "m \<in> set (movements st)" | "m \<in> set ms" using mem ms(1) by auto
    then show ?thesis
    proof cases
      case 1
      then have h: "moveOk g0 N m" "0 \<le> col (mvTo m)" "col (mvTo m) < int j"
        "getAt (gGrid st) (row (mvTo m)) (col (mvTo m)) = mvColor m"
        using moves by simp_all
      define r where "r = nat (row (mvTo m))"
      have r: "row (mvTo m) = int r" using h(1) by (simp add: moveOk_def r_def)
      have "getAt (gGrid st') (int r) (col (mvTo m)) = getAt (gGrid st) (int r) (col (mvTo m))"
        using h(3) by (intro other) simp
      then show ?thesis using h r by simp
    next
      case 2
      then have h: "moveOk (gGrid st) N m" "col (mvTo m) = int j"
        "getAt (gGrid st') (row (mvTo m)) (int j) = mvColor m"
        using ms_ok by simp_all
      define r where "r = nat (row (mvFrom m))"
      have r: "row (mvFrom m) = int r" "col (mvFrom m) = int j"
        using h(1,2) by (simp_all add: moveOk_def r_def)
      have "moveOk g0 N m"
        using h(1) colj [of r] unfolding moveOk_def r by auto
      then show ?thesis using h by simp
    qed
  qed
  show ?thesis
    unfolding outerInv_def st'_def [symmetric] N_def [symmetric]
    using 1 2 3 4 5 by blast
qed

lemma outer_all:
  fixes st :: GravityState
  assumes "outerInv g0 (nat nrows) 0 st"
  shows "outerInv g0 (nat nrows) C (fold (gravityColumn nrows) [0..int C - 1] st)"
proof (induction C)
  case 0
  show ?case using assms by simp
next
  case (Suc C)
  have "[0..int (Suc C) - 1] = [0..int C - 1] @ [int C]"
    by (simp only: upto_nat) simp
  then show ?case
    using outer_step [OF Suc] by simp
qed

lemma columnCells_nat:
  "columnCells b c = map (\<lambda>r. getAt (grid b) (int r) c) [0..<nat (rows b)]"
  by (simp add: columnCells_def upto_of_int o_def)

lemma survivors_occupiedRows:
  "survivors b c = map (\<lambda>r. getAt (grid b) (int r) c) (occupiedRows (grid b) c 0 (nat (rows b)))"
  by (simp add: survivors_def columnCells_nat occupiedRows_def filter_map o_def)

lemma count_fold:
  "fold (\<lambda>p count. if P p then count + 1 else count) ps (k :: int) = k + int (length (filter P ps))"
  by (induction ps arbitrary: k) simp_all

lemma length_filter_sum: "length (filter P xs) = sum_list (map (\<lambda>x. if P x then 1 else 0) xs)"
  by (induction xs) simp_all

lemma sum_filter_swap:
  "sum_list (map (\<lambda>r. length (filter (\<lambda>c. Q r c) cs)) rs)
     = sum_list (map (\<lambda>c. length (filter (\<lambda>r. Q r c) rs)) cs)"
proof (induction rs)
  case Nil
  show ?case by simp
next
  case (Cons r rs)
  have "sum_list (map (\<lambda>c. length (filter (\<lambda>r. Q r c) (r # rs))) cs)
          = sum_list (map (\<lambda>c. (if Q r c then 1 else 0) + length (filter (\<lambda>r. Q r c) rs)) cs)"
    by (intro arg_cong [where f = sum_list] map_cong refl) simp
  also have "\<dots> = sum_list (map (\<lambda>c. if Q r c then 1 else 0) cs)
                    + sum_list (map (\<lambda>c. length (filter (\<lambda>r. Q r c) rs)) cs)"
    by (rule sum_list_addf)
  also have "\<dots> = length (filter (\<lambda>c. Q r c) cs)
                    + sum_list (map (\<lambda>r. length (filter (\<lambda>c. Q r c) cs)) rs)"
    using Cons by (simp add: length_filter_sum)
  finally show ?case by simp
qed

lemma countNonEmptyTiles_columns:
  "countNonEmptyTiles b = int (sum_list (map (\<lambda>c. length (survivors b c)) [0..cols b - 1]))"
proof -
  let ?Q = "\<lambda>r c. getAt (grid b) r c \<noteq> Null"
  have "countNonEmptyTiles b
          = int (length (filter (\<lambda>p. ?Q (row p) (col p)) (cellPositions b)))"
    by (simp add: countNonEmptyTiles_def count_fold)
  also have "length (filter (\<lambda>p. ?Q (row p) (col p)) (cellPositions b))
               = sum_list (map (\<lambda>r. length (filter (\<lambda>c. ?Q r c) [0..cols b - 1])) [0..rows b - 1])"
    by (simp add: cellPositions_def filter_concat length_concat o_def filter_map)
  also have "\<dots> = sum_list (map (\<lambda>c. length (filter (\<lambda>r. ?Q r c) [0..rows b - 1])) [0..cols b - 1])"
    by (rule sum_filter_swap)
  also have "\<dots> = sum_list (map (\<lambda>c. length (survivors b c)) [0..cols b - 1])"
    by (simp add: survivors_def columnCells_def filter_map o_def)
  finally show ?thesis .
qed


text \<open>
  The movements that the first loop of column \<open>c\<close> pushes while it visits the rows from
  \<open>N - 1\<close> up to \<open>n\<close>.
\<close>

definition colMovesFrom :: "TileGrid \<Rightarrow> int \<Rightarrow> nat \<Rightarrow> nat \<Rightarrow> GravityMovement list" where
  "colMovesFrom g0 c N n =
     concat (map (\<lambda>r. if getAt g0 (int r) c \<noteq> Null
                          \<and> int N - 1 - int (length (occupiedRows g0 c (Suc r) N)) \<noteq> int r
                       then [GravityMovement (TilePos (int r) c)
                               (TilePos (int N - 1 - int (length (occupiedRows g0 c (Suc r) N))) c)
                               (getAt g0 (int r) c)]
                       else [])
                  (rev [n..<N]))"

lemma colMovesFrom_top [simp]: "colMovesFrom g0 c N N = []"
  by (simp add: colMovesFrom_def)

lemma colMovesFrom_Suc:
  "n < N \<Longrightarrow> colMovesFrom g0 c N n
     = colMovesFrom g0 c N (Suc n)
       @ (if getAt g0 (int n) c \<noteq> Null
             \<and> int N - 1 - int (length (occupiedRows g0 c (Suc n) N)) \<noteq> int n
          then [GravityMovement (TilePos (int n) c)
                  (TilePos (int N - 1 - int (length (occupiedRows g0 c (Suc n) N))) c)
                  (getAt g0 (int n) c)]
          else [])"
  by (simp add: colMovesFrom_def upt_conv_Cons)

lemma movesExact_step:
  assumes inv: "scanInv g0 c N (Suc n) st"
    and mv: "movements st = mv0 @ colMovesFrom g0 c N (Suc n)" and n: "n < N"
  shows "movements (gravityCell c (int n) st) = mv0 @ colMovesFrom g0 c N n"
proof -
  have wr: "writeRow st = int N - 1 - int (length (occupiedRows g0 c (Suc n) N))"
    and cur: "getAt (gGrid st) (int n) c = getAt g0 (int n) c"
    using inv unfolding scanInv_def Let_def by simp_all
  show ?thesis
    using n by (simp add: gravityCell_def Let_def colMovesFrom_Suc wr cur mv)
qed

lemma scan_moves:
  assumes "scanInv g0 c N n st" and "movements st = mv0 @ colMovesFrom g0 c N n" and "n \<le> N"
  shows "movements (fold (gravityCell c) (rev [0..int n - 1]) st) = mv0 @ colMovesFrom g0 c N 0"
  using assms
proof (induction n arbitrary: st)
  case 0
  then show ?case by simp
next
  case (Suc n)
  have "scanInv g0 c N n (gravityCell c (int n) st)"
    using Suc.prems by (intro scanInv_step) simp_all
  moreover have "movements (gravityCell c (int n) st) = mv0 @ colMovesFrom g0 c N n"
    using Suc.prems by (intro movesExact_step) simp_all
  ultimately show ?case
    using Suc.IH [of "gravityCell c (int n) st"] Suc.prems(3)
    by (simp only: rev_upto_Suc fold.simps o_apply)
qed

lemma gravityColumn_moves:
  fixes st :: GravityState and nrows c :: int
  assumes len: "length (gGrid st) = nat nrows"
  shows "movements (gravityColumn nrows c st)
           = movements st @ colMovesFrom (gGrid st) c (nat nrows) 0"
proof -
  define N where "N = nat nrows"
  define st0 where "st0 = st\<lparr>writeRow := nrows - 1\<rparr>"
  define st1 where "st1 = fold (gravityCell c) (rev [0..nrows - 1]) st0"
  have st': "gravityColumn nrows c st = fold (clearCell c) (rev [0..writeRow st1]) st1"
    by (simp add: gravityColumn_def Let_def st1_def st0_def)
  show ?thesis
  proof (cases "0 \<le> nrows")
    case False
    then have "N = 0" "st1 = st0" by (simp_all add: N_def st1_def)
    moreover from this have "gravityColumn nrows c st = st0"
      using False by (simp add: st' st0_def)
    ultimately show ?thesis
      by (simp add: st0_def N_def [symmetric])
  next
    case True
    then have nrows: "nrows = int N" by (simp add: N_def)
    have s0: "scanInv (gGrid st) c N N st0"
      unfolding st0_def nrows using len by (intro scanInv_start) (simp add: N_def)
    have m0: "movesInv (gGrid st) c N (movements st) st0"
      unfolding st0_def by (rule movesInv_start)
    have "scanInv (gGrid st) c N 0 st1"
      unfolding st1_def nrows using scan_invs [OF s0 m0] by simp
    then have "movements (gravityColumn nrows c st) = movements st1"
      unfolding st' using clear_loop by blast
    moreover have "movements st1 = movements st @ colMovesFrom (gGrid st) c N 0"
      unfolding st1_def nrows
      by (rule scan_moves [OF s0]) (simp_all add: st0_def)
    ultimately show ?thesis by (simp add: N_def)
  qed
qed

lemma colMovesFrom_cong:
  assumes "\<And>r. getAt g (int r) c = getAt g' (int r) c"
  shows "colMovesFrom g c N n = colMovesFrom g' c N n"
proof -
  have "occupiedRows g c m N = occupiedRows g' c m N" for m
    using assms by (rule occupiedRows_cong)
  then show ?thesis
    unfolding colMovesFrom_def
    by (intro arg_cong [where f = concat] map_cong refl) (simp add: assms)
qed

lemma outer_moves:
  fixes st :: GravityState
  assumes "outerInv g0 (nat nrows) 0 st"
  shows "movements (fold (gravityColumn nrows) [0..int C - 1] st)
           = movements st @ concat (map (\<lambda>c. colMovesFrom g0 (int c) (nat nrows) 0) [0..<C])"
proof (induction C)
  case 0
  show ?case by simp
next
  case (Suc C)
  define stC where "stC = fold (gravityColumn nrows) [0..int C - 1] st"
  have inv: "outerInv g0 (nat nrows) C stC"
    unfolding stC_def using assms by (rule outer_all)
  then have len: "length (gGrid stC) = nat nrows"
    and col: "\<And>r. getAt (gGrid stC) (int r) (int C) = getAt g0 (int r) (int C)"
    unfolding outerInv_def by auto
  have "[0..int (Suc C) - 1] = [0..int C - 1] @ [int C]"
    by (simp only: upto_nat) simp
  then have "movements (fold (gravityColumn nrows) [0..int (Suc C) - 1] st)
               = movements (gravityColumn nrows (int C) stC)"
    by (simp add: stC_def)
  also have "\<dots> = movements stC @ colMovesFrom (gGrid stC) (int C) (nat nrows) 0"
    using len by (rule gravityColumn_moves)
  also have "colMovesFrom (gGrid stC) (int C) (nat nrows) 0 = colMovesFrom g0 (int C) (nat nrows) 0"
    by (rule colMovesFrom_cong) (rule col)
  finally show ?case
    using Suc by (simp add: stC_def)
qed

lemma upto_from_nat: "[int m..int N - 1] = map int [m..<N]"
proof (induction N)
  case 0
  show ?case by simp
next
  case (Suc N)
  show ?case
  proof (cases "m \<le> N")
    case True
    then have "[int m..int (Suc N) - 1] = [int m..int N - 1] @ [int N]"
      using upto_rec2 [of "int m" "int N"] by simp
    then show ?thesis using Suc True by simp
  next
    case False
    then show ?thesis by simp
  qed
qed

lemma destRow_nat:
  assumes "r < nat (rows b)"
  shows "destRow b (int r) c
           = int (nat (rows b)) - 1 - int (length (occupiedRows (grid b) c (Suc r) (nat (rows b))))"
proof -
  define N where "N = nat (rows b)"
  have rows: "rows b = int N" using assms by (simp add: N_def)
  have "[int r + 1..rows b - 1] = map int [Suc r..<N]"
    unfolding rows using upto_from_nat [of "Suc r" N] by (simp add: add.commute)
  then show ?thesis
    by (simp add: destRow_def occupiedRows_def filter_map o_def N_def [symmetric] rows)
qed

lemma expectedMoves_columns:
  "expectedMoves b
     = concat (map (\<lambda>c. colMovesFrom (grid b) (int c) (nat (rows b)) 0) [0..<nat (cols b)])"
proof -
  have inner: "concat (map (\<lambda>r. if getAt (grid b) r c \<noteq> Null \<and> destRow b r c \<noteq> r
                   then [GravityMovement (TilePos r c) (TilePos (destRow b r c) c)
                           (getAt (grid b) r c)]
                   else []) (rev [0..rows b - 1]))
               = colMovesFrom (grid b) c (nat (rows b)) 0" for c
    unfolding colMovesFrom_def upto_of_int rev_map [symmetric] map_map o_def
    by (intro arg_cong [where f = concat] map_cong refl) (simp add: destRow_nat)
  show ?thesis
    unfolding expectedMoves_def inner
    by (simp add: upto_of_int o_def)
qed

lemma occupiedRows_split:
  assumes "n < N" and "getAt g (int n) c \<noteq> Null"
  shows "occupiedRows g c 0 N = occupiedRows g c 0 n @ n # occupiedRows g c (Suc n) N"
proof -
  have "[0..<N] = [0..<n] @ n # [Suc n..<N]"
    using assms(1) upt_add_eq_append [of 0 n "N - n"] by (simp add: upt_conv_Cons)
  then show ?thesis
    using assms(2) by (simp add: occupiedRows_def)
qed

lemma tile_destination:
  assumes n: "n < N" and tile: "getAt g0 (int n) c \<noteq> Null"
    and column: "map (\<lambda>r. getAt g' (int r) c) [0..<N]
                   = replicate (N - length (occupiedRows g0 c 0 N)) Null
                     @ map (\<lambda>r. getAt g0 (int r) c) (occupiedRows g0 c 0 N)"
  defines "d \<equiv> N - 1 - length (occupiedRows g0 c (Suc n) N)"
  shows "n \<le> d" and "d < N" and "getAt g' (int d) c = getAt g0 (int n) c"
proof -
  define k where "k = length (occupiedRows g0 c (Suc n) N)"
  define i where "i = length (occupiedRows g0 c 0 n)"
  have k_le: "k \<le> N - Suc n" unfolding k_def by (rule length_occupiedRows)
  have i_le: "i \<le> n" using length_occupiedRows [of g0 c 0 n] by (simp add: i_def)
  have split: "occupiedRows g0 c 0 N = occupiedRows g0 c 0 n @ n # occupiedRows g0 c (Suc n) N"
    using n tile by (rule occupiedRows_split)
  then have K: "length (occupiedRows g0 c 0 N) = i + 1 + k"
    by (simp add: i_def k_def)
  have d: "d = N - 1 - k" by (simp add: d_def k_def)
  show "n \<le> d" and dN: "d < N" using k_le n by (simp_all add: d)
  have idx: "d = (N - (i + 1 + k)) + i" using k_le i_le n by (simp add: d)
  have "getAt g' (int d) c = map (\<lambda>r. getAt g' (int r) c) [0..<N] ! d"
    using dN by simp
  also have "\<dots> = map (\<lambda>r. getAt g0 (int r) c) (occupiedRows g0 c 0 N) ! i"
    unfolding column K by (subst idx) (simp add: nth_append)
  also have "\<dots> = getAt g0 (int n) c"
    unfolding split by (simp add: nth_append i_def)
  finally show "getAt g' (int d) c = getAt g0 (int n) c" .
qed

lemma applyGravity_outer:
  fixes b :: BoardModel
  assumes "allocated b"
  defines "stF \<equiv> fold (gravityColumn (rows b)) [0..cols b - 1]
      \<lparr>gGrid = grid b, gSpecial = specialGrid b, movements = [], writeRow = rows b - 1\<rparr>"
  shows "outerInv (grid b) (nat (rows b)) (nat (cols b)) stF"
    and "applyGravity b = (movements stF, b\<lparr>grid := gGrid stF, specialGrid := gSpecial stF\<rparr>)"
proof -
  let ?st0 = "\<lparr>gGrid = grid b, gSpecial = specialGrid b, movements = [], writeRow = rows b - 1\<rparr>"
  have "outerInv (grid b) (nat (rows b)) 0 ?st0"
    using assms(1) by (simp add: outerInv_def allocated_def)
  then have "outerInv (grid b) (nat (rows b)) (nat (cols b))
               (fold (gravityColumn (rows b)) [0..int (nat (cols b)) - 1] ?st0)"
    by (rule outer_all)
  moreover have "[0..int (nat (cols b)) - 1] = [0..cols b - 1]"
    by (simp add: upto_nat upto_of_int)
  ultimately show "outerInv (grid b) (nat (rows b)) (nat (cols b)) stF"
    by (simp add: stF_def)
  show "applyGravity b = (movements stF, b\<lparr>grid := gGrid stF, specialGrid := gSpecial stF\<rparr>)"
    by (simp add: applyGravity_def Let_def stF_def)
qed

text \<open>
  C1. On an allocated board, \<open>applyGravity()\<close> returns the movements \<open>mv\<close> and leaves the
  board \<open>b'\<close> such that: \<open>countNonEmptyTiles()\<close> is the same before and after; in every
  column the tiles from top to bottom are the same sequence before and after, and the column
  afterwards is that sequence below nothing but empty cells; every tile of a cell \<open>(r, c)\<close>
  is afterwards at \<open>(destRow b r c, c)\<close>, at or below its old row; \<open>mv\<close> is exactly the list
  \<open>expectedMoves b\<close> of the tiles whose row changed, each once, with its old cell, its new
  cell and its colour, and no other entry; replaying \<open>mv\<close> on the old grid gives exactly the
  new grid; and every reported movement goes from a cell of the grid to a different, lower
  cell of the same column, with \<open>color\<close> the tile that was at \<open>from\<close> before and is at \<open>to\<close>
  afterwards, so no stationary tile is reported.
\<close>

theorem applyGravity_spec:
  fixes b :: BoardModel
  assumes "allocated b"
  defines "mv \<equiv> fst (applyGravity b)"
  defines "b' \<equiv> snd (applyGravity b)"
  shows "countNonEmptyTiles b' = countNonEmptyTiles b
       \<and> (\<forall>c. 0 \<le> c \<and> c < cols b \<longrightarrow>
             survivors b' c = survivors b c
           \<and> columnCells b' c
               = replicate (nat (rows b) - length (survivors b c)) Null @ survivors b c)
       \<and> (\<forall>r c. inBounds b r c \<and> getAt (grid b) r c \<noteq> Null \<longrightarrow>
             r \<le> destRow b r c \<and> destRow b r c < rows b
           \<and> getAt (grid b') (destRow b r c) c = getAt (grid b) r c)
       \<and> mv = expectedMoves b
       \<and> grid b' = replayMoves mv (grid b)
       \<and> (\<forall>m \<in> set mv.
             mvFrom m \<noteq> mvTo m
           \<and> inBounds b (row (mvFrom m)) (col (mvFrom m))
           \<and> inBounds b (row (mvTo m)) (col (mvTo m))
           \<and> col (mvFrom m) = col (mvTo m) \<and> row (mvFrom m) < row (mvTo m)
           \<and> mvColor m \<noteq> Null
           \<and> getAt (grid b) (row (mvFrom m)) (col (mvFrom m)) = mvColor m
           \<and> getAt (grid b') (row (mvTo m)) (col (mvTo m)) = mvColor m)
       \<and> rows b' = rows b \<and> cols b' = cols b"
proof -
  define stF where "stF = fold (gravityColumn (rows b)) [0..cols b - 1]
      \<lparr>gGrid = grid b, gSpecial = specialGrid b, movements = [], writeRow = rows b - 1\<rparr>"
  define N where "N = nat (rows b)"
  have inv: "outerInv (grid b) N (nat (cols b)) stF"
    unfolding stF_def N_def using assms(1) by (rule applyGravity_outer(1))
  have res: "mv = movements stF" "b' = b\<lparr>grid := gGrid stF, specialGrid := gSpecial stF\<rparr>"
    unfolding mv_def b'_def stF_def using applyGravity_outer(2) [OF assms(1)] by simp_all
  have fields: "rows b' = rows b" "cols b' = cols b" "grid b' = gGrid stF"
    by (simp_all add: res)
  have cols_done: "\<And>c. c < nat (cols b) \<Longrightarrow>
        map (\<lambda>r. getAt (gGrid stF) (int r) (int c)) [0..<N]
          = replicate (N - length (occupiedRows (grid b) (int c) 0 N)) Null
            @ map (\<lambda>r. getAt (grid b) (int r) (int c)) (occupiedRows (grid b) (int c) 0 N)"
    and replay: "gGrid stF = replayMoves (movements stF) (grid b)"
    and moves: "\<And>m. m \<in> set (movements stF) \<Longrightarrow> moveOk (grid b) N m \<and> 0 \<le> col (mvTo m)
             \<and> col (mvTo m) < int (nat (cols b))
             \<and> getAt (gGrid stF) (row (mvTo m)) (col (mvTo m)) = mvColor m"
    using inv unfolding outerInv_def by auto
  have column: "columnCells b' c = replicate (N - length (survivors b c)) Null @ survivors b c"
    if "0 \<le> c \<and> c < cols b" for c
  proof -
    define c' where "c' = nat c"
    have c: "c = int c'" "c' < nat (cols b)" using that by (simp_all add: c'_def)
    show ?thesis
      using cols_done [OF c(2)]
      by (simp add: columnCells_nat survivors_occupiedRows fields c(1) N_def)
  qed
  have surv: "survivors b' c = survivors b c" if "0 \<le> c \<and> c < cols b" for c
  proof -
    have "survivors b' c = filter (\<lambda>x. x \<noteq> Null) (survivors b c)"
      unfolding survivors_def [of b'] column [OF that] by simp
    then show ?thesis by (simp add: survivors_def)
  qed
  have "map (\<lambda>c. length (survivors b' c)) [0..cols b - 1]
          = map (\<lambda>c. length (survivors b c)) [0..cols b - 1]"
    by (intro map_cong refl) (simp add: surv)
  then have "sum_list (map (\<lambda>c. length (survivors b' c)) [0..cols b - 1])
          = sum_list (map (\<lambda>c. length (survivors b c)) [0..cols b - 1])"
    by (rule arg_cong)
  then have count: "countNonEmptyTiles b' = countNonEmptyTiles b"
    by (simp only: countNonEmptyTiles_columns fields)
  have move: "mvFrom m \<noteq> mvTo m
           \<and> inBounds b (row (mvFrom m)) (col (mvFrom m))
           \<and> inBounds b (row (mvTo m)) (col (mvTo m))
           \<and> col (mvFrom m) = col (mvTo m) \<and> row (mvFrom m) < row (mvTo m)
           \<and> mvColor m \<noteq> Null
           \<and> getAt (grid b) (row (mvFrom m)) (col (mvFrom m)) = mvColor m
           \<and> getAt (grid b') (row (mvTo m)) (col (mvTo m)) = mvColor m"
    if "m \<in> set mv" for m
  proof -
    have h: "moveOk (grid b) N m" "0 \<le> col (mvTo m)" "col (mvTo m) < int (nat (cols b))"
      "getAt (gGrid stF) (row (mvTo m)) (col (mvTo m)) = mvColor m"
      using moves that by (simp_all add: res)
    have "mvFrom m \<noteq> mvTo m" using h(1) by (auto simp: moveOk_def)
    then show ?thesis
      using h by (auto simp: moveOk_def inBounds_def N_def fields split: if_splits)
  qed
  have columns: "\<forall>c. 0 \<le> c \<and> c < cols b \<longrightarrow>
             survivors b' c = survivors b c
           \<and> columnCells b' c
               = replicate (nat (rows b) - length (survivors b c)) Null @ survivors b c"
    using surv column by (simp add: N_def)
  have replayed: "grid b' = replayMoves mv (grid b)"
    using replay by (simp only: fields(3) res(1))
  have reported: "\<forall>m \<in> set mv.
             mvFrom m \<noteq> mvTo m
           \<and> inBounds b (row (mvFrom m)) (col (mvFrom m))
           \<and> inBounds b (row (mvTo m)) (col (mvTo m))
           \<and> col (mvFrom m) = col (mvTo m) \<and> row (mvFrom m) < row (mvTo m)
           \<and> mvColor m \<noteq> Null
           \<and> getAt (grid b) (row (mvFrom m)) (col (mvFrom m)) = mvColor m
           \<and> getAt (grid b') (row (mvTo m)) (col (mvTo m)) = mvColor m"
    using move by blast
  have exact: "mv = expectedMoves b"
  proof -
    let ?st0 = "\<lparr>gGrid = grid b, gSpecial = specialGrid b, movements = [], writeRow = rows b - 1\<rparr>"
    have "outerInv (grid b) (nat (rows b)) 0 ?st0"
      using assms(1) by (simp add: outerInv_def allocated_def)
    then have "movements (fold (gravityColumn (rows b)) [0..int (nat (cols b)) - 1] ?st0)
                 = movements ?st0
                   @ concat (map (\<lambda>c. colMovesFrom (grid b) (int c) (nat (rows b)) 0)
                               [0..<nat (cols b)])"
      by (rule outer_moves)
    moreover have "[0..int (nat (cols b)) - 1] = [0..cols b - 1]"
      by (simp add: upto_nat upto_of_int)
    ultimately show ?thesis
      by (simp add: res(1) stF_def expectedMoves_columns)
  qed
  have dest: "r \<le> destRow b r c \<and> destRow b r c < rows b
           \<and> getAt (grid b') (destRow b r c) c = getAt (grid b) r c"
    if h: "inBounds b r c \<and> getAt (grid b) r c \<noteq> Null" for r c
  proof -
    define n where "n = nat r"
    define c' where "c' = nat c"
    have r: "r = int n" "n < N" and c: "c = int c'" "c' < nat (cols b)"
      using h by (simp_all add: inBounds_def n_def c'_def N_def)
    have rows: "rows b = int N" using r(2) by (simp add: N_def)
    have tile: "getAt (grid b) (int n) (int c') \<noteq> Null"
      using h by (simp add: r(1) c(1))
    note td = tile_destination [OF r(2) tile cols_done [OF c(2)]]
    have "length (occupiedRows (grid b) (int c') (Suc n) N) \<le> N - Suc n"
      by (rule length_occupiedRows)
    moreover have "destRow b (int n) (int c')
               = int N - 1 - int (length (occupiedRows (grid b) (int c') (Suc n) N))"
      unfolding N_def using r(2) by (intro destRow_nat) (simp add: N_def)
    ultimately have d: "destRow b r c
               = int (N - 1 - length (occupiedRows (grid b) (int c') (Suc n) N))"
      using r(2) by (simp add: r(1) c(1))
    show ?thesis
      unfolding d fields(3) using td by (simp add: r(1) c(1) rows)
  qed
  have destinations: "\<forall>r c. inBounds b r c \<and> getAt (grid b) r c \<noteq> Null \<longrightarrow>
             r \<le> destRow b r c \<and> destRow b r c < rows b
           \<and> getAt (grid b') (destRow b r c) c = getAt (grid b) r c"
    using dest by blast
  show ?thesis
    by (intro conjI count columns destinations exact replayed reported fields(1,2))
qed

text \<open>
  On \<open>boardFall\<close> red falls one row in column 0 and yellow stays where it is; in column 1
  green falls first, then blue. The stationary yellow tile is not reported. On \<open>boardStack\<close>
  the lower red tile falls to the bottom and the upper one follows it: two movements of one
  row each, not one movement of two rows.
\<close>

theorem applyGravity_spec_witness:
  "allocated boardFall
   \<and> fst (applyGravity boardFall)
       = [GravityMovement (TilePos 0 0) (TilePos 1 0) (Tile Red),
          GravityMovement (TilePos 1 1) (TilePos 2 1) (Tile Green),
          GravityMovement (TilePos 0 1) (TilePos 1 1) (Tile Blue)]
   \<and> expectedMoves boardFall
       = [GravityMovement (TilePos 0 0) (TilePos 1 0) (Tile Red),
          GravityMovement (TilePos 1 1) (TilePos 2 1) (Tile Green),
          GravityMovement (TilePos 0 1) (TilePos 1 1) (Tile Blue)]
   \<and> destRow boardFall 2 0 = 2
   \<and> map (\<lambda>r. map (getAt (grid (snd (applyGravity boardFall))) r) [0, 1]) [0, 1, 2]
       = [[Null, Null], [Tile Red, Tile Blue], [Tile Yellow, Tile Green]]
   \<and> countNonEmptyTiles boardFall = 4
   \<and> countNonEmptyTiles (snd (applyGravity boardFall)) = 4
   \<and> survivors boardFall 1 = [Tile Blue, Tile Green]
   \<and> survivors (snd (applyGravity boardFall)) 1 = [Tile Blue, Tile Green]
   \<and> grid (snd (applyGravity boardFall))
       = replayMoves (fst (applyGravity boardFall)) (grid boardFall)
   \<and> allocated boardStack
   \<and> fst (applyGravity boardStack)
       = [GravityMovement (TilePos 1 0) (TilePos 2 0) (Tile Red),
          GravityMovement (TilePos 0 0) (TilePos 1 0) (Tile Red)]"
proof -
  have a: "allocated boardFall"
    by (simp add: allocated_def boardFall_def boardOf_def)
  have a': "allocated boardStack"
    by (simp add: allocated_def boardStack_def boardOf_def)
  have c: "(0::int) \<le> 1 \<and> 1 < cols boardFall"
    by (simp add: boardFall_def boardOf_def)
  have e1: "expectedMoves boardFall
       = [GravityMovement (TilePos 0 0) (TilePos 1 0) (Tile Red),
          GravityMovement (TilePos 1 1) (TilePos 2 1) (Tile Green),
          GravityMovement (TilePos 0 1) (TilePos 1 1) (Tile Blue)]"
    by code_simp
  have e2: "map (\<lambda>r. map (getAt (grid (snd (applyGravity boardFall))) r) [0, 1]) [0, 1, 2]
       = [[Null, Null], [Tile Red, Tile Blue], [Tile Yellow, Tile Green]]"
    by code_simp
  have e3: "countNonEmptyTiles boardFall = 4"
    by code_simp
  have e4: "survivors boardFall 1 = [Tile Blue, Tile Green]"
    by code_simp
  have e5: "destRow boardFall 2 0 = 2"
    by code_simp
  have e6: "expectedMoves boardStack
       = [GravityMovement (TilePos 1 0) (TilePos 2 0) (Tile Red),
          GravityMovement (TilePos 0 0) (TilePos 1 0) (Tile Red)]"
    by code_simp
  show ?thesis
    using applyGravity_spec [OF a] applyGravity_spec [OF a'] a a' c e1 e2 e3 e4 e5 e6 by simp
qed

end
